theory Spec2Isabelle
  imports Main "HOL-Library.Word"
begin

unbundle bit_operations_syntax

section \<open>The splash decoder of \<^verbatim>\<open>src/boot/efi/splash.c\<close>\<close>

text \<open>
  The C file decodes a BMP image held in a byte buffer and draws it on the UEFI
  graphics output. The input buffer is a list of bytes, and an address in it is an
  offset from its first byte. \<^verbatim>\<open>UINTN\<close> is the 64-bit unsigned integer of
  the x86-64 and AArch64 UEFI targets; the packed header structures are read
  little-endian at their byte offsets, as the cast of the buffer to the structures does
  there.
\<close>

type_synonym u8 = "8 word"
type_synonym u16 = "16 word"
type_synonym u32 = "32 word"
type_synonym UINTN = "64 word"

datatype EFI_STATUS =
    EFI_SUCCESS
  | EFI_INVALID_PARAMETER
  | EFI_UNSUPPORTED
  | EFI_OTHER nat

subsection \<open>The header structures\<close>

text \<open>The fields are those of the packed C structures, in their order. The two
  \<^verbatim>\<open>int32_t\<close> fields of \<^verbatim>\<open>struct bmp_dib\<close> are kept as their 32 bits; the
  file never reads them.\<close>

record bmp_file =
  file_signature :: "u8 \<times> u8"
  file_size :: u32
  file_reserved :: "u16 \<times> u16"
  file_offset :: u32

record bmp_dib =
  dib_size :: u32
  dib_x :: u32
  dib_y :: u32
  dib_planes :: u16
  dib_depth :: u16
  dib_compression :: u32
  dib_image_size :: u32
  dib_x_pixel_meter :: u32
  dib_y_pixel_meter :: u32
  dib_colors_used :: u32
  dib_colors_important :: u32

record EFI_GRAPHICS_OUTPUT_BLT_PIXEL =
  Blue :: u8
  Green :: u8
  Red :: u8
  Reserved :: u8

text \<open>Little-endian reads of the buffer (unchecked: the callers check the range).\<close>

definition le16 :: "u8 list \<Rightarrow> nat \<Rightarrow> u16" where
  "le16 bs i = ucast (bs ! i) OR push_bit 8 (ucast (bs ! (i + 1)))"

definition le32 :: "u8 list \<Rightarrow> nat \<Rightarrow> u32" where
  "le32 bs i =
     ucast (bs ! i) OR push_bit 8 (ucast (bs ! (i + 1))) OR
     push_bit 16 (ucast (bs ! (i + 2))) OR push_bit 24 (ucast (bs ! (i + 3)))"

text \<open>\<^verbatim>\<open>sizeof(struct bmp_file)\<close>, \<^verbatim>\<open>sizeof(struct bmp_dib)\<close> and
  \<^verbatim>\<open>sizeof(struct bmp_map)\<close> of the packed structures.\<close>

definition sizeof_bmp_file :: nat where
  "sizeof_bmp_file = 14"

definition sizeof_bmp_dib :: nat where
  "sizeof_bmp_dib = 40"

definition sizeof_bmp_map :: nat where
  "sizeof_bmp_map = 4"

text \<open>\<^verbatim>\<open>(struct bmp_file *)bmp\<close> and
  \<^verbatim>\<open>(struct bmp_dib *)(bmp + sizeof(struct bmp_file))\<close>.\<close>

definition as_bmp_file :: "u8 list \<Rightarrow> bmp_file" where
  "as_bmp_file bmp =
     \<lparr> file_signature = (bmp ! 0, bmp ! 1),
       file_size = le32 bmp 2,
       file_reserved = (le16 bmp 6, le16 bmp 8),
       file_offset = le32 bmp 10 \<rparr>"

definition as_bmp_dib :: "u8 list \<Rightarrow> bmp_dib" where
  "as_bmp_dib bmp =
     \<lparr> dib_size = le32 bmp 14,
       dib_x = le32 bmp 18,
       dib_y = le32 bmp 22,
       dib_planes = le16 bmp 26,
       dib_depth = le16 bmp 28,
       dib_compression = le32 bmp 30,
       dib_image_size = le32 bmp 34,
       dib_x_pixel_meter = le32 bmp 38,
       dib_y_pixel_meter = le32 bmp 42,
       dib_colors_used = le32 bmp 46,
       dib_colors_important = le32 bmp 50 \<rparr>"

subsection \<open>\<^verbatim>\<open>bmp_parse_header\<close>\<close>

text \<open>
  The function is a sequence of checks, each returning a status at once when it fails.
  The model keeps the order and groups the checks as the comments of the source do:
  the size of the buffer, the file header, the device-independent bitmap header, the
  size of the pixel rows, the colour table. Each group returns the status the function
  returns there, or \<open>EFI_SUCCESS\<close> when the function goes on.
\<close>

definition check_file_header :: "bmp_file \<Rightarrow> nat \<Rightarrow> EFI_STATUS" where
  "check_file_header file sz =
     (if fst (file_signature file) \<noteq> 0x42 \<or> snd (file_signature file) \<noteq> 0x4D
        then EFI_INVALID_PARAMETER
      else if unat (file_size file) \<noteq> sz then EFI_INVALID_PARAMETER
      else if file_size file < file_offset file then EFI_INVALID_PARAMETER
      else EFI_SUCCESS)"

definition check_dib :: "bmp_dib \<Rightarrow> EFI_STATUS" where
  "check_dib dib =
     (if unat (dib_size dib) < sizeof_bmp_dib then EFI_UNSUPPORTED
      else if dib_depth dib = 1 \<or> dib_depth dib = 4 \<or> dib_depth dib = 8 \<or> dib_depth dib = 24
        then (if dib_compression dib \<noteq> 0 then EFI_UNSUPPORTED else EFI_SUCCESS)
      else if dib_depth dib = 16 \<or> dib_depth dib = 32
        then (if dib_compression dib \<noteq> 0 \<and> dib_compression dib \<noteq> 3
              then EFI_UNSUPPORTED else EFI_SUCCESS)
      else EFI_UNSUPPORTED)"

text \<open>\<^verbatim>\<open>row_size = ((UINTN) dib->depth * dib->x + 31) / 32 * 4\<close>, in
  \<^verbatim>\<open>UINTN\<close> arithmetic.\<close>

definition header_row_size :: "bmp_dib \<Rightarrow> UINTN" where
  "header_row_size dib = (ucast (dib_depth dib) * ucast (dib_x dib) + 31) div 32 * 4"

definition check_rows :: "bmp_file \<Rightarrow> bmp_dib \<Rightarrow> EFI_STATUS" where
  "check_rows file dib =
     (if (ucast (file_size file - file_offset file) :: UINTN)
           < ucast (dib_y dib) * header_row_size dib
        then EFI_INVALID_PARAMETER
      else if header_row_size dib * ucast (dib_y dib) > 64 * 1024 * 1024
        then EFI_INVALID_PARAMETER
      else EFI_SUCCESS)"

text \<open>The entry count the colour table is measured against (\<^verbatim>\<open>map_count\<close>).\<close>

definition map_count :: "bmp_dib \<Rightarrow> u32" where
  "map_count dib =
     (if dib_colors_used dib \<noteq> 0 then dib_colors_used dib
      else if dib_depth dib = 1 \<or> dib_depth dib = 4 \<or> dib_depth dib = 8
        then push_bit (unat (dib_depth dib)) 1
      else 0)"

definition check_color_table :: "bmp_file \<Rightarrow> bmp_dib \<Rightarrow> EFI_STATUS" where
  "check_color_table file dib =
     (let dib_end = (of_nat sizeof_bmp_file + ucast (dib_size dib) :: UINTN) in
      if ucast (file_offset file) < dib_end then EFI_INVALID_PARAMETER
      else if ucast (file_offset file) > dib_end
        then (let map_size = (ucast (file_offset file) - dib_end :: UINTN) in
              if map_size \<noteq> of_nat sizeof_bmp_map * ucast (map_count dib)
                then EFI_INVALID_PARAMETER
              else EFI_SUCCESS)
      else EFI_SUCCESS)"

text \<open>
  On success the function returns the header, the offset of the colour table
  (\<^verbatim>\<open>bmp + sizeof(struct bmp_file) + dib->size\<close>) and the offset of the pixel
  rows (\<^verbatim>\<open>bmp + file->offset\<close>). The size argument is the length of the
  buffer.
\<close>

definition bmp_parse_header :: "u8 list \<Rightarrow> EFI_STATUS + (bmp_dib \<times> nat \<times> nat)" where
  "bmp_parse_header bmp =
     (if length bmp < sizeof_bmp_file + sizeof_bmp_dib then Inl EFI_INVALID_PARAMETER
      else
        let file = as_bmp_file bmp; dib = as_bmp_dib bmp in
        if check_file_header file (length bmp) \<noteq> EFI_SUCCESS
          then Inl (check_file_header file (length bmp))
        else if check_dib dib \<noteq> EFI_SUCCESS then Inl (check_dib dib)
        else if check_rows file dib \<noteq> EFI_SUCCESS then Inl (check_rows file dib)
        else if check_color_table file dib \<noteq> EFI_SUCCESS
          then Inl (check_color_table file dib)
        else Inr (dib, sizeof_bmp_file + unat (dib_size dib), unat (file_offset file)))"

subsection \<open>\<^verbatim>\<open>pixel_blend\<close>\<close>

definition pixel_blend :: "u32 \<Rightarrow> u32 \<Rightarrow> u32" where
  "pixel_blend dst source =
     (let alpha = source AND 0xff;
          src = drop_bit 8 source;
          src_rb = src AND 0xff00ff;
          src_g = src AND 0x00ff00;
          dst_rb = dst AND 0xff00ff;
          dst_g = dst AND 0x00ff00;
          rb = (drop_bit 8 ((src_rb - dst_rb) * alpha + 0x800080) + dst_rb) AND 0xff00ff;
          g = (drop_bit 8 ((src_g - dst_g) * alpha + 0x008000) + dst_g) AND 0x00ff00
      in rb OR g)"

text \<open>The pixel structure read and written as one 32-bit word
  (\<^verbatim>\<open>(uint32_t *)out\<close>): blue is the low byte.\<close>

definition pixel_word :: "EFI_GRAPHICS_OUTPUT_BLT_PIXEL \<Rightarrow> u32" where
  "pixel_word p =
     ucast (Blue p) OR push_bit 8 (ucast (Green p)) OR
     push_bit 16 (ucast (Red p)) OR push_bit 24 (ucast (Reserved p))"

definition word_pixel :: "u32 \<Rightarrow> EFI_GRAPHICS_OUTPUT_BLT_PIXEL" where
  "word_pixel w =
     \<lparr> Blue = ucast w, Green = ucast (drop_bit 8 w),
       Red = ucast (drop_bit 16 w), Reserved = ucast (drop_bit 24 w) \<rparr>"

subsection \<open>\<^verbatim>\<open>bmp_to_blt\<close>\<close>

text \<open>
  The converter reads the input through the pointers \<^verbatim>\<open>in\<close> and
  \<^verbatim>\<open>map\<close> and writes the pixel buffer through \<^verbatim>\<open>out\<close>, with no
  check of its own. In the model the pointers are offsets (\<open>cur\<close> and \<open>mp\<close> into the
  input, \<open>out\<close> into the pixel buffer), and an access outside the object it points into,
  which is undefined behaviour in C, is a fault that ends the run. The loop counters
  are \<^verbatim>\<open>UINTN\<close> values bounded by the 32-bit width and height, so they are
  natural numbers here.
\<close>

datatype fault = ReadOutside nat | WriteOutside nat

text \<open>
  The three assignments \<^verbatim>\<open>out->Red = map[i].red\<close>,
  \<^verbatim>\<open>out->Green = map[i].green\<close>, \<^verbatim>\<open>out->Blue = map[i].blue\<close>.
  The red byte has the greatest address of the three and is read first.
\<close>

definition put_map ::
  "u8 list \<Rightarrow> nat \<Rightarrow> nat \<Rightarrow> nat \<Rightarrow> EFI_GRAPHICS_OUTPUT_BLT_PIXEL list
    \<Rightarrow> fault + EFI_GRAPHICS_OUTPUT_BLT_PIXEL list" where
  "put_map bmp mp i out buf =
     (if \<not> mp + sizeof_bmp_map * i + 2 < length bmp
        then Inl (ReadOutside (mp + sizeof_bmp_map * i + 2))
      else if \<not> out < length buf then Inl (WriteOutside out)
      else Inr (buf[out := (buf ! out)
             \<lparr> Blue := bmp ! (mp + sizeof_bmp_map * i),
               Green := bmp ! (mp + sizeof_bmp_map * i + 1),
               Red := bmp ! (mp + sizeof_bmp_map * i + 2) \<rparr>]))"

text \<open>Depth 1: \<^verbatim>\<open>for (UINTN i = 0; i < 8 && x < dib->x; i++)\<close>, with
  \<open>w\<close> the width.\<close>

function depth1_loop ::
  "nat \<Rightarrow> u8 list \<Rightarrow> nat \<Rightarrow> nat \<Rightarrow> nat \<Rightarrow> nat \<Rightarrow> nat
    \<Rightarrow> EFI_GRAPHICS_OUTPUT_BLT_PIXEL list
    \<Rightarrow> fault + (nat \<times> nat \<times> EFI_GRAPHICS_OUTPUT_BLT_PIXEL list)" where
  "depth1_loop w bmp mp cur i x out buf =
     (if i < 8 \<and> x < w then
        (if \<not> cur < length bmp then Inl (ReadOutside cur)
         else
           case put_map bmp mp (unat (drop_bit (7 - i) (bmp ! cur) AND 1)) out buf of
             Inl f \<Rightarrow> Inl f
           | Inr buf' \<Rightarrow> depth1_loop w bmp mp cur (i + 1) (x + 1) (out + 1) buf')
      else Inr (x, out, buf))"
  by pat_completeness auto
termination
  by (relation "measure (\<lambda>(w, bmp, mp, cur, i, x, out, buf). 8 - i)") auto

declare depth1_loop.simps [simp del]

text \<open>The body of \<^verbatim>\<open>switch (dib->depth)\<close> for one value of \<open>x\<close>: it
  returns \<open>x\<close>, \<open>cur\<close>, \<open>out\<close> and the buffer as they are when the switch is left.\<close>

definition bmp_pixel ::
  "bmp_dib \<Rightarrow> u8 list \<Rightarrow> nat \<Rightarrow> nat \<Rightarrow> nat \<Rightarrow> nat
    \<Rightarrow> EFI_GRAPHICS_OUTPUT_BLT_PIXEL list
    \<Rightarrow> fault + (nat \<times> nat \<times> nat \<times> EFI_GRAPHICS_OUTPUT_BLT_PIXEL list)" where
  "bmp_pixel dib bmp mp x cur out buf =
     (if dib_depth dib = 1 then
        (case depth1_loop (unat (dib_x dib)) bmp mp cur 0 x out buf of
           Inl f \<Rightarrow> Inl f
         | Inr (x', out', buf') \<Rightarrow> Inr (x' - 1, cur, out' - 1, buf'))
      else if dib_depth dib = 4 then
        (if \<not> cur < length bmp then Inl (ReadOutside cur)
         else
           case put_map bmp mp (unat (drop_bit 4 (bmp ! cur))) out buf of
             Inl f \<Rightarrow> Inl f
           | Inr buf' \<Rightarrow>
               if x < unat (dib_x dib - 1) then
                 (case put_map bmp mp (unat (bmp ! cur AND 0x0f)) (out + 1) buf' of
                    Inl f \<Rightarrow> Inl f
                  | Inr buf'' \<Rightarrow> Inr (x + 1, cur, out + 1, buf''))
               else Inr (x, cur, out, buf'))
      else if dib_depth dib = 8 then
        (if \<not> cur < length bmp then Inl (ReadOutside cur)
         else
           case put_map bmp mp (unat (bmp ! cur)) out buf of
             Inl f \<Rightarrow> Inl f
           | Inr buf' \<Rightarrow> Inr (x, cur, out, buf'))
      else if dib_depth dib = 16 then
        (if \<not> cur + 1 < length bmp then Inl (ReadOutside (cur + 1))
         else if \<not> out < length buf then Inl (WriteOutside out)
         else
           let i = le16 bmp cur in
           Inr (x, cur + 1, out,
                buf[out := (buf ! out)
                  \<lparr> Blue := ucast (push_bit 3 (i AND 0x1f)),
                    Green := ucast (drop_bit 2 (i AND 0x3e0)),
                    Red := ucast (drop_bit 7 (i AND 0x7c00)) \<rparr>]))
      else if dib_depth dib = 24 then
        (if \<not> cur + 2 < length bmp then Inl (ReadOutside (cur + 2))
         else if \<not> out < length buf then Inl (WriteOutside out)
         else
           Inr (x, cur + 2, out,
                buf[out := (buf ! out)
                  \<lparr> Blue := bmp ! cur,
                    Green := bmp ! (cur + 1),
                    Red := bmp ! (cur + 2) \<rparr>]))
      else if dib_depth dib = 32 then
        (if \<not> cur + 3 < length bmp then Inl (ReadOutside (cur + 3))
         else if \<not> out < length buf then Inl (WriteOutside out)
         else
           let i = le32 bmp cur in
           Inr (x, cur + 3, out,
                buf[out := word_pixel (pixel_blend (pixel_word (buf ! out)) i)]))
      else Inr (x, cur, out, buf))"

lemma depth1_loop_x:
  "depth1_loop w bmp mp cur i x out buf = Inr (x', out', buf') \<Longrightarrow>
     x' = x + min (8 - i) (w - x) \<and> out' = out + min (8 - i) (w - x)"
proof (induction w bmp mp cur i x out buf rule: depth1_loop.induct)
  case (1 w bmp mp cur i x out buf)
  show ?case
  proof (cases "i < 8 \<and> x < w")
    case True
    with "1.prems" obtain buf1 where
      b: "put_map bmp mp (unat (drop_bit (7 - i) (bmp ! cur) AND 1)) out buf = Inr buf1" and
      c: "cur < length bmp" and
      r: "depth1_loop w bmp mp cur (i + 1) (x + 1) (out + 1) buf1 = Inr (x', out', buf')"
      by (subst (asm) depth1_loop.simps) (auto split: if_splits sum.splits)
    from "1.IH" [OF True _ b r] c True show ?thesis
      by (auto simp: min_def)
  next
    case False
    with "1.prems" show ?thesis
      by (subst (asm) depth1_loop.simps) (auto simp: min_def)
  qed
qed

lemma bmp_pixel_x:
  assumes "bmp_pixel dib bmp mp x cur out buf = Inr (x', cur', out', buf')"
    and "x < unat (dib_x dib)"
  shows "x \<le> x'"
proof (cases "dib_depth dib = 1")
  case True
  with assms(1) obtain x1 out1 where
    l: "depth1_loop (unat (dib_x dib)) bmp mp cur 0 x out buf = Inr (x1, out1, buf')"
    and x': "x' = x1 - 1"
    by (auto simp: bmp_pixel_def split: sum.splits)
  from depth1_loop_x [OF l] assms(2) x' show ?thesis
    by (simp add: min_def split: if_splits)
next
  case False
  with assms(1) show ?thesis
    by (auto simp: bmp_pixel_def Let_def split: if_splits sum.splits)
qed

text \<open>The loop \<^verbatim>\<open>for (UINTN x = 0; x < dib->x; x++, in++, out++)\<close> over
  one row, from the counter \<open>x\<close> on. It returns \<^verbatim>\<open>in\<close> and the buffer.\<close>

function bmp_row ::
  "bmp_dib \<Rightarrow> u8 list \<Rightarrow> nat \<Rightarrow> nat \<Rightarrow> nat \<Rightarrow> nat
    \<Rightarrow> EFI_GRAPHICS_OUTPUT_BLT_PIXEL list
    \<Rightarrow> fault + (nat \<times> EFI_GRAPHICS_OUTPUT_BLT_PIXEL list)" where
  "bmp_row dib bmp mp x cur out buf =
     (if x < unat (dib_x dib) then
        (case bmp_pixel dib bmp mp x cur out buf of
           Inl f \<Rightarrow> Inl f
         | Inr (x', cur', out', buf') \<Rightarrow>
             bmp_row dib bmp mp (x' + 1) (cur' + 1) (out' + 1) buf')
      else Inr (cur, buf))"
  by pat_completeness auto
termination
proof (relation "measure (\<lambda>(dib, bmp, mp, x, cur, out, buf). unat (dib_x dib) - x)")
  show "wf (measure (\<lambda>(dib, bmp, mp, x, cur, out, buf). unat (dib_x dib) - x))"
    by simp
next
  fix dib :: bmp_dib and bmp mp x cur out buf r x' p cur' q out' buf'
  assume "x < unat (dib_x dib)"
    and "bmp_pixel dib bmp mp x cur out buf = Inr r"
    and "(x', p) = r" and "(cur', q) = p" and "(out', buf') = q"
  then have "x \<le> x'"
    using bmp_pixel_x [of dib bmp mp x cur out buf x' cur' out' buf'] by auto
  with \<open>x < unat (dib_x dib)\<close>
  show "((dib, bmp, mp, x' + 1, cur' + 1, out' + 1, buf'), (dib, bmp, mp, x, cur, out, buf))
        \<in> measure (\<lambda>(dib, bmp, mp, x, cur, out, buf). unat (dib_x dib) - x)"
    by simp
qed

declare bmp_row.simps [simp del]

text \<open>
  The row padding: \<^verbatim>\<open>row_size = in - pixmap; in += ((row_size + 3) & ~3) - row_size\<close>.
  The difference of the two pointers into one object does not wrap; clearing the two
  low bits is \<open>div 4 * 4\<close>.
\<close>

definition row_padding :: "nat \<Rightarrow> nat \<Rightarrow> nat" where
  "row_padding pixmap cur =
     (let row_size = cur - pixmap in cur + ((row_size + 3) div 4 * 4 - row_size))"

text \<open>The loop \<^verbatim>\<open>for (UINTN y = 0; y < dib->y; y++)\<close>, from the counter
  \<open>y\<close> on.\<close>

function bmp_rows ::
  "bmp_dib \<Rightarrow> u8 list \<Rightarrow> nat \<Rightarrow> nat \<Rightarrow> nat \<Rightarrow> nat
    \<Rightarrow> EFI_GRAPHICS_OUTPUT_BLT_PIXEL list
    \<Rightarrow> fault + (nat \<times> EFI_GRAPHICS_OUTPUT_BLT_PIXEL list)" where
  "bmp_rows dib bmp mp pixmap y cur buf =
     (if y < unat (dib_y dib) then
        (case bmp_row dib bmp mp 0 cur ((unat (dib_y dib) - y - 1) * unat (dib_x dib)) buf of
           Inl f \<Rightarrow> Inl f
         | Inr (cur', buf') \<Rightarrow>
             bmp_rows dib bmp mp pixmap (y + 1) (row_padding pixmap cur') buf')
      else Inr (cur, buf))"
  by pat_completeness auto
termination
  by (relation "measure (\<lambda>(dib, bmp, mp, pixmap, y, cur, buf). unat (dib_y dib) - y)") auto

declare bmp_rows.simps [simp del]

text \<open>\<^verbatim>\<open>bmp_to_blt\<close> itself: it has no error path, and returns
  \<^verbatim>\<open>EFI_SUCCESS\<close> with the buffer it filled.\<close>

definition bmp_to_blt ::
  "u8 list \<Rightarrow> EFI_GRAPHICS_OUTPUT_BLT_PIXEL list \<Rightarrow> bmp_dib \<Rightarrow> nat \<Rightarrow> nat
    \<Rightarrow> fault + (EFI_STATUS \<times> EFI_GRAPHICS_OUTPUT_BLT_PIXEL list)" where
  "bmp_to_blt bmp buf dib mp pixmap =
     (case bmp_rows dib bmp mp pixmap 0 pixmap buf of
        Inl f \<Rightarrow> Inl f
      | Inr (cur, buf') \<Rightarrow> Inr (EFI_SUCCESS, buf'))"

subsection \<open>\<^verbatim>\<open>graphics_splash\<close>\<close>

text \<open>
  The firmware is outside the file: the vendor string, the protocol lookup, the mode
  of the graphics output, its \<^verbatim>\<open>Blt\<close> service and \<^verbatim>\<open>graphics_mode\<close>.
  It is a parameter of the model. Every call \<^verbatim>\<open>graphics_splash\<close> makes to it
  is recorded, in order, with its arguments; the status a call returns and the pixels
  \<^verbatim>\<open>EfiBltVideoToBltBuffer\<close> delivers are the firmware's choice.
\<close>

datatype firmware_call =
    LocateProtocol
  | EfiBltVideoFill EFI_GRAPHICS_OUTPUT_BLT_PIXEL nat nat
  | EfiBltVideoToBltBuffer nat nat nat nat
  | graphics_mode bool
  | EfiBltBufferToVideo "EFI_GRAPHICS_OUTPUT_BLT_PIXEL list" nat nat nat nat

record firmware =
  FirmwareVendor_Apple :: bool
  HorizontalResolution :: u32
  VerticalResolution :: u32
  call_status :: "firmware_call \<Rightarrow> EFI_STATUS"
  video_pixel :: "nat \<Rightarrow> nat \<Rightarrow> nat \<Rightarrow> nat \<Rightarrow> nat \<Rightarrow> EFI_GRAPHICS_OUTPUT_BLT_PIXEL"

text \<open>Lines 290 to 293: the position of the image on one axis, from the resolution
  and the size of the image on that axis, in 32-bit arithmetic.\<close>

definition splash_pos :: "u32 \<Rightarrow> u32 \<Rightarrow> nat" where
  "splash_pos resolution extent =
     (if extent < resolution then unat ((resolution - extent) div 2) else 0)"

text \<open>
  The result is what the function returns (a status, or the fault of
  \<^verbatim>\<open>bmp_to_blt\<close>) and the calls it made. The buffer \<^verbatim>\<open>blt\<close> has
  \<^verbatim>\<open>dib->x * dib->y\<close> pixels, a 32-bit product, which the capture fills.
\<close>

definition graphics_splash ::
  "firmware \<Rightarrow> u8 list \<Rightarrow> EFI_GRAPHICS_OUTPUT_BLT_PIXEL option
    \<Rightarrow> (fault + EFI_STATUS) \<times> firmware_call list" where
  "graphics_splash fw content background =
     (if length content = 0 then (Inr EFI_SUCCESS, [])
      else
        let pixel = (if FirmwareVendor_Apple fw
                     then \<lparr> Blue = 0xc0, Green = 0xc0, Red = 0xc0, Reserved = 0 \<rparr>
                     else \<lparr> Blue = 0, Green = 0, Red = 0, Reserved = 0 \<rparr>);
            bg = (case background of None \<Rightarrow> pixel | Some b \<Rightarrow> b)
        in
        if call_status fw LocateProtocol \<noteq> EFI_SUCCESS
          then (Inr (call_status fw LocateProtocol), [LocateProtocol])
        else
          case bmp_parse_header content of
            Inl err \<Rightarrow> (Inr err, [LocateProtocol])
          | Inr (dib, mp, pixmap) \<Rightarrow>
              let x_pos = splash_pos (HorizontalResolution fw) (dib_x dib);
                  y_pos = splash_pos (VerticalResolution fw) (dib_y dib);
                  fill = EfiBltVideoFill bg (unat (HorizontalResolution fw))
                           (unat (VerticalResolution fw));
                  capture = EfiBltVideoToBltBuffer x_pos y_pos
                              (unat (dib_x dib)) (unat (dib_y dib))
              in
              if call_status fw fill \<noteq> EFI_SUCCESS
                then (Inr (call_status fw fill), [LocateProtocol, fill])
              else if call_status fw capture \<noteq> EFI_SUCCESS
                then (Inr (call_status fw capture), [LocateProtocol, fill, capture])
              else
                let blt = map (video_pixel fw x_pos y_pos (unat (dib_x dib)) (unat (dib_y dib)))
                            [0 ..< unat (dib_x dib * dib_y dib)]
                in
                (case bmp_to_blt content blt dib mp pixmap of
                   Inl f \<Rightarrow> (Inl f, [LocateProtocol, fill, capture])
                 | Inr (err, blt') \<Rightarrow>
                     if err \<noteq> EFI_SUCCESS then (Inr err, [LocateProtocol, fill, capture])
                     else if call_status fw (graphics_mode True) \<noteq> EFI_SUCCESS
                       then (Inr (call_status fw (graphics_mode True)),
                             [LocateProtocol, fill, capture, graphics_mode True])
                     else
                       let write = EfiBltBufferToVideo blt' x_pos y_pos
                                     (unat (dib_x dib)) (unat (dib_y dib))
                       in (Inr (call_status fw write),
                           [LocateProtocol, fill, capture, graphics_mode True, write])))"

subsection \<open>The palette size in the words of the specification\<close>

text \<open>
  The specification gives the number of palette entries as the header's colours-used
  count if it is not zero, else \<open>2 ^ depth\<close> for depths up to 8, else 0. The source
  computes \<^verbatim>\<open>map_count\<close> in 32 bits, with a shift, for the depths 1, 4 and 8;
  the two are compared below.
\<close>

definition palette_entry_count :: "bmp_dib \<Rightarrow> nat" where
  "palette_entry_count dib =
     (if dib_colors_used dib \<noteq> 0 then unat (dib_colors_used dib)
      else if unat (dib_depth dib) \<le> 8 then 2 ^ unat (dib_depth dib)
      else 0)"

subsection \<open>Concrete images and firmwares\<close>

text \<open>
  A 1 by 1 image of depth 24 (58 bytes: the two headers and one padded row), a 2 by 2
  image of depth 24, a 20 by 20 image of depth 1 with a palette of two entries, and two
  images of depth 8 that declare 16 colours, one with 63 bytes between the headers and
  the pixel rows and one with 64.
\<close>

definition bmp_1x1 :: "u8 list" where
  "bmp_1x1 =
     [66, 77, 58, 0, 0, 0, 0, 0, 0, 0, 54, 0, 0, 0, 40, 0, 0, 0, 1, 0, 0, 0, 1, 0, 0,
      0, 1, 0, 24, 0, 0, 0, 0, 0, 0, 0, 0, 0, 0, 0, 0, 0, 0, 0, 0, 0, 0, 0, 0, 0, 0, 0,
      0, 0, 1, 2, 3, 0]"

definition bmp_2x2 :: "u8 list" where
  "bmp_2x2 =
     [66, 77, 70, 0, 0, 0, 0, 0, 0, 0, 54, 0, 0, 0, 40, 0, 0, 0, 2, 0, 0, 0, 2, 0, 0,
      0, 1, 0, 24, 0, 0, 0, 0, 0, 0, 0, 0, 0, 0, 0, 0, 0, 0, 0, 0, 0, 0, 0, 0, 0, 0, 0,
      0, 0, 10, 20, 30, 40, 50, 60, 0, 0, 70, 80, 90, 100, 110, 120, 0, 0]"

definition bmp_20x20 :: "u8 list" where
  "bmp_20x20 =
     [66, 77, 142, 0, 0, 0, 0, 0, 0, 0, 62, 0, 0, 0, 40, 0, 0, 0, 20, 0, 0, 0, 20, 0,
      0, 0, 1, 0, 1, 0, 0, 0, 0, 0, 0, 0, 0, 0, 0, 0, 0, 0, 0, 0, 0, 0, 0, 0, 0, 0, 0,
      0, 0, 0, 0, 0, 0, 0, 255, 255, 255, 0] @ replicate 80 0xAA"

definition bmp_short_table :: "u8 list" where
  "bmp_short_table =
     [66, 77, 121, 0, 0, 0, 0, 0, 0, 0, 117, 0, 0, 0, 40, 0, 0, 0, 1, 0, 0, 0, 1, 0, 0,
      0, 1, 0, 8, 0, 0, 0, 0, 0, 0, 0, 0, 0, 0, 0, 0, 0, 0, 0, 0, 0, 16, 0, 0, 0, 0, 0,
      0, 0] @ replicate 67 0"

definition bmp_exact_table :: "u8 list" where
  "bmp_exact_table =
     [66, 77, 122, 0, 0, 0, 0, 0, 0, 0, 118, 0, 0, 0, 40, 0, 0, 0, 1, 0, 0, 0, 1, 0, 0,
      0, 1, 0, 8, 0, 0, 0, 0, 0, 0, 0, 0, 0, 0, 0, 0, 0, 0, 0, 0, 0, 16, 0, 0, 0, 0, 0,
      0, 0] @ replicate 68 0"

text \<open>A 1 by 1 image of depth 16 whose pixel is the word \<open>0x1234\<close>, and a 1 by 1
  image of depth 8 that declares one colour, has a colour table of one entry (4 bytes at
  offset 54) and whose only pixel has the index 255.\<close>

definition bmp_1x1_16 :: "u8 list" where
  "bmp_1x1_16 =
     [66, 77, 58, 0, 0, 0, 0, 0, 0, 0, 54, 0, 0, 0, 40, 0, 0, 0, 1, 0, 0, 0, 1, 0, 0,
      0, 1, 0, 16, 0, 0, 0, 0, 0, 0, 0, 0, 0, 0, 0, 0, 0, 0, 0, 0, 0, 0, 0, 0, 0, 0, 0,
      0, 0, 0x34, 0x12, 0, 0]"

definition bmp_index_255 :: "u8 list" where
  "bmp_index_255 =
     [66, 77, 62, 0, 0, 0, 0, 0, 0, 0, 58, 0, 0, 0, 40, 0, 0, 0, 1, 0, 0, 0, 1, 0, 0,
      0, 1, 0, 8, 0, 0, 0, 0, 0, 0, 0, 0, 0, 0, 0, 0, 0, 0, 0, 0, 0, 1, 0, 0, 0, 0, 0,
      0, 0, 10, 20, 30, 0, 255, 0, 0, 0]"

text \<open>The two headers alone (54 bytes) with width and height \<open>2 ^ 31\<close> at depth 32:
  the stride is \<open>2 ^ 33\<close> and \<open>height * stride\<close> is \<open>2 ^ 64\<close>.\<close>

definition bmp_wrap :: "u8 list" where
  "bmp_wrap =
     [66, 77, 54, 0, 0, 0, 0, 0, 0, 0, 54, 0, 0, 0, 40, 0, 0, 0, 0, 0, 0, 128, 0, 0, 0,
      128, 1, 0, 32, 0, 0, 0, 0, 0, 0, 0, 0, 0, 0, 0, 0, 0, 0, 0, 0, 0, 0, 0, 0, 0, 0,
      0, 0, 0]"

text \<open>A firmware with a 10 by 10 graphics output whose calls all succeed, and one
  that refuses to read a rectangle that is not inside the 10 by 10 surface.\<close>

definition fw_10x10 :: firmware where
  "fw_10x10 =
     \<lparr> FirmwareVendor_Apple = False, HorizontalResolution = 10, VerticalResolution = 10,
       call_status = (\<lambda>c. EFI_SUCCESS),
       video_pixel = (\<lambda>x y w h i. \<lparr> Blue = 0, Green = 0, Red = 0, Reserved = 0 \<rparr>) \<rparr>"

definition fw_10x10_strict :: firmware where
  "fw_10x10_strict =
     fw_10x10 \<lparr> call_status :=
       (\<lambda>c. case c of
          EfiBltVideoToBltBuffer x y w h \<Rightarrow>
            if x + w \<le> 10 \<and> y + h \<le> 10 then EFI_SUCCESS else EFI_INVALID_PARAMETER
        | _ \<Rightarrow> EFI_SUCCESS) \<rparr>"

lemmas header_defs = bmp_parse_header_def sizeof_bmp_file_def sizeof_bmp_dib_def
  sizeof_bmp_map_def check_file_header_def as_bmp_file_def as_bmp_dib_def le32_def le16_def
  check_dib_def check_rows_def header_row_size_def check_color_table_def map_count_def Let_def

lemmas convert_defs = bmp_to_blt_def bmp_rows.simps bmp_row.simps bmp_pixel_def
  depth1_loop.simps row_padding_def put_map_def

subsection \<open>The rows in the words of the specification\<close>

text \<open>
  The bytes of a row that carry pixels, \<open>ceil(depth * width / 8)\<close>, and the stride of a
  row, \<open>ceil(depth * width / 32) * 4\<close>.
\<close>

definition row_bytes :: "bmp_dib \<Rightarrow> nat" where
  "row_bytes dib = (unat (dib_depth dib) * unat (dib_x dib) + 7) div 8"

definition row_stride :: "bmp_dib \<Rightarrow> nat" where
  "row_stride dib = (unat (dib_depth dib) * unat (dib_x dib) + 31) div 32 * 4"

text \<open>
  The pixel at column \<open>x\<close> of the source row that starts at offset \<open>row\<close>, decoded as
  the specification describes each depth, over the pixel \<open>old\<close> that the output buffer
  holds there: a palette entry for the depths up to 8 (one bit, most significant first;
  one nibble, the high one first; one byte), the 5-5-5 word, the three bytes, or the
  four bytes blended onto \<open>old\<close>. Reads are plain list lookups: the function is compared with
  runs of the converter that did not fault.
\<close>

definition palette_pixel ::
  "u8 list \<Rightarrow> nat \<Rightarrow> nat \<Rightarrow> EFI_GRAPHICS_OUTPUT_BLT_PIXEL \<Rightarrow> EFI_GRAPHICS_OUTPUT_BLT_PIXEL" where
  "palette_pixel bmp mp i old =
     old \<lparr> Blue := bmp ! (mp + 4 * i), Green := bmp ! (mp + 4 * i + 1),
           Red := bmp ! (mp + 4 * i + 2) \<rparr>"

text \<open>
  Depth 32 in the words of the specification: the source pixel is four bytes, alpha
  first, then blue, green and red, and every channel of the result is
  \<open>dest + ((src - dest) * alpha + 0x80) / 256\<close> in the integers, rounded down; the
  fourth byte of the result is 0.
\<close>

definition blend_channel :: "u8 \<Rightarrow> u8 \<Rightarrow> u8 \<Rightarrow> u8" where
  "blend_channel dest src alpha =
     word_of_int (uint dest + ((uint src - uint dest) * uint alpha + 0x80) div 256)"

definition blended_pixel ::
  "u8 list \<Rightarrow> nat \<Rightarrow> EFI_GRAPHICS_OUTPUT_BLT_PIXEL \<Rightarrow> EFI_GRAPHICS_OUTPUT_BLT_PIXEL" where
  "blended_pixel bmp at old =
     \<lparr> Blue = blend_channel (Blue old) (bmp ! (at + 1)) (bmp ! at),
       Green = blend_channel (Green old) (bmp ! (at + 2)) (bmp ! at),
       Red = blend_channel (Red old) (bmp ! (at + 3)) (bmp ! at),
       Reserved = 0 \<rparr>"

definition src_pixel ::
  "bmp_dib \<Rightarrow> u8 list \<Rightarrow> nat \<Rightarrow> nat \<Rightarrow> nat \<Rightarrow> EFI_GRAPHICS_OUTPUT_BLT_PIXEL
    \<Rightarrow> EFI_GRAPHICS_OUTPUT_BLT_PIXEL" where
  "src_pixel dib bmp mp row x old =
     (if dib_depth dib = 1 then
        palette_pixel bmp mp (unat (drop_bit (7 - x mod 8) (bmp ! (row + x div 8)) AND 1)) old
      else if dib_depth dib = 4 then
        palette_pixel bmp mp
          (if even x then unat (drop_bit 4 (bmp ! (row + x div 2)))
           else unat (bmp ! (row + x div 2) AND 0x0f)) old
      else if dib_depth dib = 8 then
        palette_pixel bmp mp (unat (bmp ! (row + x))) old
      else if dib_depth dib = 16 then
        old \<lparr> Blue := ucast (push_bit 3 (le16 bmp (row + 2 * x) AND 0x1f)),
              Green := ucast (drop_bit 2 (le16 bmp (row + 2 * x) AND 0x3e0)),
              Red := ucast (drop_bit 7 (le16 bmp (row + 2 * x) AND 0x7c00)) \<rparr>
      else if dib_depth dib = 24 then
        old \<lparr> Blue := bmp ! (row + 3 * x), Green := bmp ! (row + 3 * x + 1),
              Red := bmp ! (row + 3 * x + 2) \<rparr>
      else if dib_depth dib = 32 then blended_pixel bmp (row + 4 * x) old
      else old)"

text \<open>What one pass through the switch consumes: the pixels it stores, given how many
  are left in the row, and the bytes the cursor moves by (with the loop's own
  increment). \<open>bytes_for dib n\<close> is the byte count of \<open>n\<close> pixels.\<close>

definition step_pixels :: "bmp_dib \<Rightarrow> nat \<Rightarrow> nat" where
  "step_pixels dib n =
     (if dib_depth dib = 1 then min 8 n else if dib_depth dib = 4 then min 2 n else 1)"

definition step_bytes :: "bmp_dib \<Rightarrow> nat" where
  "step_bytes dib =
     (if dib_depth dib = 16 then 2 else if dib_depth dib = 24 then 3
      else if dib_depth dib = 32 then 4 else 1)"

definition bytes_for :: "bmp_dib \<Rightarrow> nat \<Rightarrow> nat" where
  "bytes_for dib n = (unat (dib_depth dib) * n + 7) div 8"

text \<open>At the depths that use the palette, all \<open>2 ^ depth\<close> entries a pixel can select
  lie inside the input.\<close>

definition palette_inside :: "bmp_dib \<Rightarrow> u8 list \<Rightarrow> nat \<Rightarrow> bool" where
  "palette_inside dib bmp mp \<longleftrightarrow>
     (dib_depth dib \<in> {1, 4, 8} \<longrightarrow> mp + 4 * 2 ^ unat (dib_depth dib) \<le> length bmp)"

text \<open>A 1 by 2 image of depth 32: the bottom row is red with alpha 128, the top row
  has alpha 0.\<close>

definition bmp_1x2_32 :: "u8 list" where
  "bmp_1x2_32 =
     [66, 77, 62, 0, 0, 0, 0, 0, 0, 0, 54, 0, 0, 0, 40, 0, 0, 0, 1, 0, 0, 0, 2, 0, 0,
      0, 1, 0, 32, 0, 0, 0, 0, 0, 0, 0, 0, 0, 0, 0, 0, 0, 0, 0, 0, 0, 0, 0, 0, 0, 0, 0,
      0, 0, 128, 0, 0, 255, 0, 9, 9, 9]"


text \<open>Two images whose width is not a multiple of the pixels per byte: 9 by 2 at
  depth 1 and 3 by 2 at depth 4, each with a palette of two entries at offset 54 and
  two rows of two bytes, padded to four, at offset 62.\<close>

definition bmp_9x2_1bit :: "u8 list" where
  "bmp_9x2_1bit =
     [66, 77, 70, 0, 0, 0, 0, 0, 0, 0, 62, 0, 0, 0, 40, 0, 0, 0, 9, 0, 0, 0, 2, 0, 0,
      0, 1, 0, 1, 0, 0, 0, 0, 0, 0, 0, 0, 0, 0, 0, 0, 0, 0, 0, 0, 0, 0, 0, 0, 0, 0, 0,
      0, 0, 1, 2, 3, 0, 4, 5, 6, 0, 170, 128, 0, 0, 0, 128, 0, 0]"

definition bmp_3x2_4bit :: "u8 list" where
  "bmp_3x2_4bit =
     [66, 77, 70, 0, 0, 0, 0, 0, 0, 0, 62, 0, 0, 0, 40, 0, 0, 0, 3, 0, 0, 0, 2, 0, 0,
      0, 1, 0, 4, 0, 0, 0, 0, 0, 0, 0, 0, 0, 0, 0, 0, 0, 0, 0, 0, 0, 2, 0, 0, 0, 0, 0,
      0, 0, 1, 2, 3, 0, 4, 5, 6, 0, 16, 16, 0, 0, 1, 0, 0, 0]"

section \<open>The header validator\<close>

lemma check_dib_depth:
  "check_dib dib = EFI_SUCCESS \<Longrightarrow> dib_depth dib \<in> {1, 4, 8, 16, 24, 32}"
  by (auto simp: check_dib_def split: if_splits)

lemma unat_ucast_u32: "unat (ucast (w :: u32) :: UINTN) = unat w"
proof -
  have "unat w < 2 ^ 64"
    using unsigned_less [of w, where ?'a = nat] by simp
  then show ?thesis
    by (simp add: unsigned_ucast_eq take_bit_nat_eq_self)
qed

lemma unat_dib_end:
  "unat (of_nat sizeof_bmp_file + ucast (d :: u32) :: UINTN) = 14 + unat d"
proof -
  have "unat d < 2 ^ 32" using unsigned_less [of d, where ?'a = nat] by simp
  then show ?thesis
    by (simp add: sizeof_bmp_file_def unat_word_ariths unat_ucast_u32)
qed

lemma unat_map_bytes:
  "unat (of_nat sizeof_bmp_map * ucast (c :: u32) :: UINTN) = 4 * unat c"
proof -
  have "unat c < 2 ^ 32" using unsigned_less [of c, where ?'a = nat] by simp
  then show ?thesis
    by (simp add: sizeof_bmp_map_def unat_word_ariths unat_ucast_u32)
qed

text \<open>Once the depth is one of the six the validator lets through, the 32-bit
  \<^verbatim>\<open>map_count\<close> is the entry count of the specification.\<close>

lemma unat_map_count:
  assumes "check_dib dib = EFI_SUCCESS"
  shows "unat (map_count dib) = palette_entry_count dib"
proof -
  from check_dib_depth [OF assms]
  consider "dib_depth dib = 1" | "dib_depth dib = 4" | "dib_depth dib = 8"
    | "dib_depth dib = 16" | "dib_depth dib = 24" | "dib_depth dib = 32"
    by auto
  then show ?thesis
    by cases (simp_all add: map_count_def palette_entry_count_def)
qed

text \<open>The colour table check in natural numbers: none of its 64-bit operations
  wraps.\<close>

lemma check_color_table_nat:
  assumes "check_dib dib = EFI_SUCCESS"
  shows "check_color_table file dib =
     (if 14 + unat (dib_size dib) \<le> unat (file_offset file) \<and>
         (14 + unat (dib_size dib) < unat (file_offset file) \<longrightarrow>
            unat (file_offset file) - (14 + unat (dib_size dib)) = 4 * palette_entry_count dib)
      then EFI_SUCCESS else EFI_INVALID_PARAMETER)"
proof -
  let ?e = "of_nat sizeof_bmp_file + ucast (dib_size dib) :: UINTN"
  let ?o = "ucast (file_offset file) :: UINTN"
  have e: "unat ?e = 14 + unat (dib_size dib)" by (rule unat_dib_end)
  have o: "unat ?o = unat (file_offset file)" by (rule unat_ucast_u32)
  have lt: "?o < ?e \<longleftrightarrow> unat (file_offset file) < 14 + unat (dib_size dib)"
    by (simp add: word_less_nat_alt e o)
  have gt: "?e < ?o \<longleftrightarrow> 14 + unat (dib_size dib) < unat (file_offset file)"
    by (simp add: word_less_nat_alt e o)
  have sub: "?e < ?o \<Longrightarrow> unat (?o - ?e) = unat (file_offset file) - (14 + unat (dib_size dib))"
    by (simp add: unat_sub word_le_nat_alt word_less_nat_alt e o)
  have eq: "?e < ?o \<Longrightarrow> (?o - ?e = of_nat sizeof_bmp_map * ucast (map_count dib)) \<longleftrightarrow>
      unat (file_offset file) - (14 + unat (dib_size dib)) = 4 * palette_entry_count dib"
    using sub unat_map_bytes [of "map_count dib"] unat_map_count [OF assms]
    by (metis word_unat_eq_iff)
  show ?thesis
    unfolding check_color_table_def Let_def
    using lt gt eq by auto
qed

text \<open>
  C7, as amended. The validator has two error statuses, not one per check. An input
  shorter than the two headers (a 10-byte input among them), a signature other than
  \<open>BM\<close> and a size field that differs from the length of the input are each rejected
  with \<open>EFI_INVALID_PARAMETER\<close>; a depth outside 1, 4, 8, 16, 24, 32 (depth 2 among
  them) and a compression other than 0 at depth 1, 4, 8 or 24 (compression 1 at depth 8
  among them) are each rejected with \<open>EFI_UNSUPPORTED\<close>; the two statuses differ.
\<close>

theorem header_rejections:
  "(length bmp < 54 \<longrightarrow> bmp_parse_header bmp = Inl EFI_INVALID_PARAMETER) \<and>
   (54 \<le> length bmp \<and> (bmp ! 0 \<noteq> 0x42 \<or> bmp ! 1 \<noteq> 0x4D) \<longrightarrow>
      bmp_parse_header bmp = Inl EFI_INVALID_PARAMETER) \<and>
   (54 \<le> length bmp \<and> bmp ! 0 = 0x42 \<and> bmp ! 1 = 0x4D \<and>
    unat (file_size (as_bmp_file bmp)) \<noteq> length bmp \<longrightarrow>
      bmp_parse_header bmp = Inl EFI_INVALID_PARAMETER) \<and>
   (54 \<le> length bmp \<and> check_file_header (as_bmp_file bmp) (length bmp) = EFI_SUCCESS \<and>
    40 \<le> unat (dib_size (as_bmp_dib bmp)) \<and>
    dib_depth (as_bmp_dib bmp) \<notin> {1, 4, 8, 16, 24, 32} \<longrightarrow>
      bmp_parse_header bmp = Inl EFI_UNSUPPORTED) \<and>
   (54 \<le> length bmp \<and> check_file_header (as_bmp_file bmp) (length bmp) = EFI_SUCCESS \<and>
    40 \<le> unat (dib_size (as_bmp_dib bmp)) \<and>
    dib_depth (as_bmp_dib bmp) \<in> {1, 4, 8, 24} \<and> dib_compression (as_bmp_dib bmp) \<noteq> 0 \<longrightarrow>
      bmp_parse_header bmp = Inl EFI_UNSUPPORTED) \<and>
   EFI_INVALID_PARAMETER \<noteq> EFI_UNSUPPORTED"
  by (auto simp: bmp_parse_header_def sizeof_bmp_file_def sizeof_bmp_dib_def
      check_file_header_def check_dib_def as_bmp_file_def Let_def)

text \<open>The five inputs of the specification, each the 1 by 1 image with one field
  changed (and the 10-byte input), and the unchanged image, which is accepted.\<close>

theorem header_rejections_witness:
  "bmp_parse_header (replicate 10 0) = Inl EFI_INVALID_PARAMETER \<and>
   bmp_parse_header (bmp_1x1[1 := 0x5A]) = Inl EFI_INVALID_PARAMETER \<and>
   bmp_parse_header (bmp_1x1[2 := 57]) = Inl EFI_INVALID_PARAMETER \<and>
   bmp_parse_header (bmp_1x1[28 := 2]) = Inl EFI_UNSUPPORTED \<and>
   bmp_parse_header (bmp_1x1[28 := 8, 30 := 1]) = Inl EFI_UNSUPPORTED \<and>
   bmp_parse_header bmp_1x1 = Inr (as_bmp_dib bmp_1x1, 54, 54)"
proof -
  have 1: "length (replicate 10 (0 :: u8)) < 54" by simp
  have 2: "54 \<le> length (bmp_1x1[1 := 0x5A]) \<and>
           ((bmp_1x1[1 := 0x5A]) ! 0 \<noteq> 0x42 \<or> (bmp_1x1[1 := 0x5A]) ! 1 \<noteq> 0x4D)"
    by (simp add: bmp_1x1_def)
  have 3: "54 \<le> length (bmp_1x1[2 := 57]) \<and> (bmp_1x1[2 := 57]) ! 0 = 0x42 \<and>
           (bmp_1x1[2 := 57]) ! 1 = 0x4D \<and>
           unat (file_size (as_bmp_file (bmp_1x1[2 := 57]))) \<noteq> length (bmp_1x1[2 := 57])"
    by (simp add: bmp_1x1_def as_bmp_file_def le32_def le16_def)
  have 4: "54 \<le> length (bmp_1x1[28 := 2]) \<and>
           check_file_header (as_bmp_file (bmp_1x1[28 := 2])) (length (bmp_1x1[28 := 2]))
             = EFI_SUCCESS \<and>
           40 \<le> unat (dib_size (as_bmp_dib (bmp_1x1[28 := 2]))) \<and>
           dib_depth (as_bmp_dib (bmp_1x1[28 := 2])) \<notin> {1, 4, 8, 16, 24, 32}"
    by (simp add: bmp_1x1_def check_file_header_def as_bmp_file_def as_bmp_dib_def
        le32_def le16_def)
  have 5: "54 \<le> length (bmp_1x1[28 := 8, 30 := 1]) \<and>
           check_file_header (as_bmp_file (bmp_1x1[28 := 8, 30 := 1]))
             (length (bmp_1x1[28 := 8, 30 := 1])) = EFI_SUCCESS \<and>
           40 \<le> unat (dib_size (as_bmp_dib (bmp_1x1[28 := 8, 30 := 1]))) \<and>
           dib_depth (as_bmp_dib (bmp_1x1[28 := 8, 30 := 1])) \<in> {1, 4, 8, 24} \<and>
           dib_compression (as_bmp_dib (bmp_1x1[28 := 8, 30 := 1])) \<noteq> 0"
    by (simp add: bmp_1x1_def check_file_header_def as_bmp_file_def as_bmp_dib_def
        le32_def le16_def)
  have 6: "bmp_parse_header bmp_1x1 = Inr (as_bmp_dib bmp_1x1, 54, 54)"
    by (simp add: header_defs bmp_1x1_def)
  from header_rejections [of "replicate 10 0"] 1
  have a: "bmp_parse_header (replicate 10 0) = Inl EFI_INVALID_PARAMETER" by blast
  from header_rejections [of "bmp_1x1[1 := 0x5A]"] 2
  have b: "bmp_parse_header (bmp_1x1[1 := 0x5A]) = Inl EFI_INVALID_PARAMETER" by blast
  from header_rejections [of "bmp_1x1[2 := 57]"] 3
  have c: "bmp_parse_header (bmp_1x1[2 := 57]) = Inl EFI_INVALID_PARAMETER" by blast
  from header_rejections [of "bmp_1x1[28 := 2]"] 4
  have d: "bmp_parse_header (bmp_1x1[28 := 2]) = Inl EFI_UNSUPPORTED" by blast
  from header_rejections [of "bmp_1x1[28 := 8, 30 := 1]"] 5
  have e: "bmp_parse_header (bmp_1x1[28 := 8, 30 := 1]) = Inl EFI_UNSUPPORTED" by blast
  from a b c d e 6 show ?thesis by blast
qed

text \<open>
  C7 as the specification states it fails: the five rejections are not five pairwise
  distinct values. The 10-byte input, the signature \<open>BZ\<close> and the size field 57 for
  58 bytes all give \<open>EFI_INVALID_PARAMETER\<close>; depth 2, and compression 1 at depth 8,
  both give \<open>EFI_UNSUPPORTED\<close>.
\<close>

theorem header_errors_not_distinct_counterexample:
  "\<not> distinct (map bmp_parse_header
       [replicate 10 0, bmp_1x1[1 := 0x5A], bmp_1x1[2 := 57],
        bmp_1x1[28 := 2], bmp_1x1[28 := 8, 30 := 1]])"
  by (simp add: header_defs bmp_1x1_def)

text \<open>
  C8. For an input that passed the checks before it (length, file header, bitmap
  header, row sizes), the validator succeeds exactly when the pixel-data offset is at
  least the end of the bitmap header and, when it is greater, the gap is exactly four
  times the palette entry count of the specification; any other input is rejected (the
  status is \<open>EFI_INVALID_PARAMETER\<close>, the one this file has for a bad colour table). On
  success the colour table starts at the end of the bitmap header and the pixel rows at
  the pixel-data offset.
\<close>

theorem color_table_exact:
  assumes "sizeof_bmp_file + sizeof_bmp_dib \<le> length bmp"
    and "check_file_header (as_bmp_file bmp) (length bmp) = EFI_SUCCESS"
    and "check_dib (as_bmp_dib bmp) = EFI_SUCCESS"
    and "check_rows (as_bmp_file bmp) (as_bmp_dib bmp) = EFI_SUCCESS"
  shows "bmp_parse_header bmp =
     (let pixelDataOffset = unat (file_offset (as_bmp_file bmp));
          dibEnd = 14 + unat (dib_size (as_bmp_dib bmp))
      in if dibEnd \<le> pixelDataOffset \<and>
            (dibEnd < pixelDataOffset \<longrightarrow>
               pixelDataOffset - dibEnd = 4 * palette_entry_count (as_bmp_dib bmp))
         then Inr (as_bmp_dib bmp, dibEnd, pixelDataOffset)
         else Inl EFI_INVALID_PARAMETER)"
  using assms check_color_table_nat [OF assms(3), of "as_bmp_file bmp"]
  by (simp add: bmp_parse_header_def Let_def sizeof_bmp_file_def)

text \<open>The example of the specification: depth 8, 16 colours declared, a table span
  of \<open>16 * 4 - 1\<close> bytes is rejected; with 64 bytes the same header is accepted.\<close>

theorem color_table_exact_witness:
  "bmp_parse_header bmp_short_table = Inl EFI_INVALID_PARAMETER \<and>
   dib_depth (as_bmp_dib bmp_short_table) = 8 \<and>
   dib_colors_used (as_bmp_dib bmp_short_table) = 16 \<and>
   unat (file_offset (as_bmp_file bmp_short_table))
     - (14 + unat (dib_size (as_bmp_dib bmp_short_table))) = 16 * 4 - 1 \<and>
   bmp_parse_header bmp_exact_table = Inr (as_bmp_dib bmp_exact_table, 54, 118)"
proof -
  have s: "sizeof_bmp_file + sizeof_bmp_dib \<le> length bmp_short_table"
    "check_file_header (as_bmp_file bmp_short_table) (length bmp_short_table) = EFI_SUCCESS"
    "check_dib (as_bmp_dib bmp_short_table) = EFI_SUCCESS"
    "check_rows (as_bmp_file bmp_short_table) (as_bmp_dib bmp_short_table) = EFI_SUCCESS"
    by (simp_all add: bmp_short_table_def sizeof_bmp_file_def sizeof_bmp_dib_def
        check_file_header_def check_dib_def check_rows_def header_row_size_def
        as_bmp_file_def as_bmp_dib_def le32_def le16_def nth_append)
  have e: "sizeof_bmp_file + sizeof_bmp_dib \<le> length bmp_exact_table"
    "check_file_header (as_bmp_file bmp_exact_table) (length bmp_exact_table) = EFI_SUCCESS"
    "check_dib (as_bmp_dib bmp_exact_table) = EFI_SUCCESS"
    "check_rows (as_bmp_file bmp_exact_table) (as_bmp_dib bmp_exact_table) = EFI_SUCCESS"
    by (simp_all add: bmp_exact_table_def sizeof_bmp_file_def sizeof_bmp_dib_def
        check_file_header_def check_dib_def check_rows_def header_row_size_def
        as_bmp_file_def as_bmp_dib_def le32_def le16_def nth_append)
  have v: "unat (file_offset (as_bmp_file bmp_short_table)) = 117"
    "unat (dib_size (as_bmp_dib bmp_short_table)) = 40"
    "dib_depth (as_bmp_dib bmp_short_table) = 8"
    "dib_colors_used (as_bmp_dib bmp_short_table) = 16"
    "unat (file_offset (as_bmp_file bmp_exact_table)) = 118"
    "unat (dib_size (as_bmp_dib bmp_exact_table)) = 40"
    "dib_depth (as_bmp_dib bmp_exact_table) = 8"
    "dib_colors_used (as_bmp_dib bmp_exact_table) = 16"
    by (simp_all add: bmp_short_table_def bmp_exact_table_def as_bmp_file_def as_bmp_dib_def
        le32_def le16_def nth_append)
  from color_table_exact [OF s] color_table_exact [OF e] v
  show ?thesis
    by (simp add: palette_entry_count_def Let_def)
qed

section \<open>The compositor\<close>

lemma splash_pos_int: "int (splash_pos res ext) = max 0 ((uint res - uint ext) div 2)"
proof (cases "ext < res")
  case True
  then have le: "uint ext \<le> uint res" by (simp add: word_less_def)
  have "uint ((res - ext) div 2) = (uint res - uint ext) div 2"
    using le by (simp add: uint_div uint_sub_if')
  with True le show ?thesis by (simp add: splash_pos_def max_def)
next
  case False
  then have "uint res \<le> uint ext" by (simp add: word_less_def not_less word_le_def)
  then have "(uint res - uint ext) div 2 \<le> 0" by simp
  with False show ?thesis by (simp add: splash_pos_def max_def)
qed

text \<open>
  C9. For an input of length 0 the function returns \<open>EFI_SUCCESS\<close> and has made no
  call to the firmware at all: it has not looked up the graphics output, and has
  filled, read and written nothing.
\<close>

theorem empty_input_no_effect:
  "graphics_splash fw [] background = (Inr EFI_SUCCESS, [])"
  by (simp add: graphics_splash_def)

theorem empty_input_no_effect_witness:
  "graphics_splash fw_10x10 [] None = (Inr EFI_SUCCESS, [])"
  using empty_input_no_effect [of fw_10x10 None] by simp

text \<open>
  C3, as amended. The header is validated before the surface is filled. For every
  non-empty input that fails header validation, once the graphics output has been
  found, the function returns the validation failure and the protocol lookup is the
  only call it has made: the surface has not been filled.
\<close>

theorem validation_failure_before_fill:
  assumes "content \<noteq> []" and "call_status fw LocateProtocol = EFI_SUCCESS"
    and "bmp_parse_header content = Inl err"
  shows "graphics_splash fw content background = (Inr err, [LocateProtocol])"
  using assms by (simp add: graphics_splash_def Let_def)

theorem validation_failure_before_fill_witness:
  "bmp_1x1[1 := 0x5A] \<noteq> [] \<and> call_status fw_10x10 LocateProtocol = EFI_SUCCESS \<and>
   bmp_parse_header (bmp_1x1[1 := 0x5A]) = Inl EFI_INVALID_PARAMETER \<and>
   graphics_splash fw_10x10 (bmp_1x1[1 := 0x5A]) None =
     (Inr EFI_INVALID_PARAMETER, [LocateProtocol])"
proof -
  have a: "bmp_1x1[1 := 0x5A] \<noteq> []" by (simp add: bmp_1x1_def)
  have b: "call_status fw_10x10 LocateProtocol = EFI_SUCCESS" by (simp add: fw_10x10_def)
  have c: "bmp_parse_header (bmp_1x1[1 := 0x5A]) = Inl EFI_INVALID_PARAMETER"
    by (simp add: header_defs bmp_1x1_def)
  from validation_failure_before_fill [OF a b c] a b c show ?thesis by simp
qed

text \<open>
  C3 as the specification states it fails: a 10-byte input is not empty and fails
  validation, and when the function returns that failure no \<open>EfiBltVideoFill\<close> is
  among the calls it has made.
\<close>

theorem validation_failure_not_filled_counterexample:
  "replicate 10 0 \<noteq> ([] :: u8 list) \<and>
   bmp_parse_header (replicate 10 0) = Inl EFI_INVALID_PARAMETER \<and>
   graphics_splash fw_10x10 (replicate 10 0) None =
     (Inr EFI_INVALID_PARAMETER, [LocateProtocol]) \<and>
   (\<nexists>bg w h.
      EfiBltVideoFill bg w h \<in> set (snd (graphics_splash fw_10x10 (replicate 10 0) None)))"
  by (simp add: graphics_splash_def fw_10x10_def header_defs)

text \<open>
  C4. For every validated image and every resolution, every capture and every write
  the function issues is at \<open>xOffset = max 0 ((surfaceWidth - imageWidth) div 2)\<close> and
  \<open>yOffset = max 0 ((surfaceHeight - imageHeight) div 2)\<close>, and the offset is 0 on an
  axis on which the image is at least as large as the surface. A run that returns
  \<open>EFI_SUCCESS\<close> has captured and written the image rectangle, both at one position.
\<close>

theorem splash_centred:
  assumes "bmp_parse_header content = Inr (dib, mp, pixmap)"
  shows "(\<forall>c \<in> set (snd (graphics_splash fw content background)).
            case c of
              EfiBltVideoToBltBuffer x y w h \<Rightarrow>
                int x = max 0 ((uint (HorizontalResolution fw) - uint (dib_x dib)) div 2) \<and>
                int y = max 0 ((uint (VerticalResolution fw) - uint (dib_y dib)) div 2) \<and>
                (HorizontalResolution fw \<le> dib_x dib \<longrightarrow> x = 0) \<and>
                (VerticalResolution fw \<le> dib_y dib \<longrightarrow> y = 0)
            | EfiBltBufferToVideo b x y w h \<Rightarrow>
                int x = max 0 ((uint (HorizontalResolution fw) - uint (dib_x dib)) div 2) \<and>
                int y = max 0 ((uint (VerticalResolution fw) - uint (dib_y dib)) div 2) \<and>
                (HorizontalResolution fw \<le> dib_x dib \<longrightarrow> x = 0) \<and>
                (VerticalResolution fw \<le> dib_y dib \<longrightarrow> y = 0)
            | _ \<Rightarrow> True) \<and>
         (fst (graphics_splash fw content background) = Inr EFI_SUCCESS \<longrightarrow>
            (\<exists>x y b. [EfiBltVideoToBltBuffer x y (unat (dib_x dib)) (unat (dib_y dib)),
                       EfiBltBufferToVideo b x y (unat (dib_x dib)) (unat (dib_y dib))]
                      = map ((!) (snd (graphics_splash fw content background))) [2, 4]))"
proof -
  have z: "res \<le> ext \<Longrightarrow> splash_pos res ext = 0" for res ext
    by (auto simp: splash_pos_def)
  have ne: "content \<noteq> []"
    using assms by (auto simp: bmp_parse_header_def sizeof_bmp_file_def)
  show ?thesis
    using assms ne
    by (auto simp: graphics_splash_def Let_def splash_pos_int [symmetric] z split: sum.splits)
qed

text \<open>The examples of the specification on a 10 by 10 surface: the 2 by 2 image is
  captured and written at (4, 4), the 20 by 20 image is captured at (0, 0).\<close>

theorem splash_centred_witness:
  "bmp_parse_header bmp_2x2 = Inr (as_bmp_dib bmp_2x2, 54, 54) \<and>
   bmp_parse_header bmp_20x20 = Inr (as_bmp_dib bmp_20x20, 54, 62) \<and>
   graphics_splash fw_10x10 bmp_2x2 None =
     (Inr EFI_SUCCESS,
      [LocateProtocol,
       EfiBltVideoFill \<lparr>Blue = 0, Green = 0, Red = 0, Reserved = 0\<rparr> 10 10,
       EfiBltVideoToBltBuffer 4 4 2 2, graphics_mode True,
       EfiBltBufferToVideo
         [\<lparr>Blue = 70, Green = 80, Red = 90, Reserved = 0\<rparr>,
          \<lparr>Blue = 100, Green = 110, Red = 120, Reserved = 0\<rparr>,
          \<lparr>Blue = 10, Green = 20, Red = 30, Reserved = 0\<rparr>,
          \<lparr>Blue = 40, Green = 50, Red = 60, Reserved = 0\<rparr>] 4 4 2 2]) \<and>
   graphics_splash fw_10x10_strict bmp_20x20 None =
     (Inr EFI_INVALID_PARAMETER,
      [LocateProtocol,
       EfiBltVideoFill \<lparr>Blue = 0, Green = 0, Red = 0, Reserved = 0\<rparr> 10 10,
       EfiBltVideoToBltBuffer 0 0 20 20])"
proof -
  have a: "bmp_parse_header bmp_2x2 = Inr (as_bmp_dib bmp_2x2, 54, 54)"
    by (simp add: header_defs bmp_2x2_def)
  have b: "bmp_parse_header bmp_20x20 = Inr (as_bmp_dib bmp_20x20, 54, 62)"
    by (simp add: header_defs bmp_20x20_def nth_append)
  have c: "graphics_splash fw_10x10 bmp_2x2 None =
     (Inr EFI_SUCCESS,
      [LocateProtocol,
       EfiBltVideoFill \<lparr>Blue = 0, Green = 0, Red = 0, Reserved = 0\<rparr> 10 10,
       EfiBltVideoToBltBuffer 4 4 2 2, graphics_mode True,
       EfiBltBufferToVideo
         [\<lparr>Blue = 70, Green = 80, Red = 90, Reserved = 0\<rparr>,
          \<lparr>Blue = 100, Green = 110, Red = 120, Reserved = 0\<rparr>,
          \<lparr>Blue = 10, Green = 20, Red = 30, Reserved = 0\<rparr>,
          \<lparr>Blue = 40, Green = 50, Red = 60, Reserved = 0\<rparr>] 4 4 2 2])"
    by (simp add: graphics_splash_def header_defs fw_10x10_def splash_pos_def
        bmp_2x2_def convert_defs upt_conv_Cons)
  have d: "graphics_splash fw_10x10_strict bmp_20x20 None =
     (Inr EFI_INVALID_PARAMETER,
      [LocateProtocol,
       EfiBltVideoFill \<lparr>Blue = 0, Green = 0, Red = 0, Reserved = 0\<rparr> 10 10,
       EfiBltVideoToBltBuffer 0 0 20 20])"
    by (simp add: graphics_splash_def header_defs fw_10x10_strict_def fw_10x10_def
       splash_pos_def bmp_20x20_def nth_append)
  from splash_centred [OF a, of fw_10x10 None] splash_centred [OF b, of fw_10x10_strict None]
  show ?thesis using a b c d by simp
qed

section \<open>The alpha blender\<close>

subsection \<open>The arithmetic of one channel group, in the integers\<close>

lemma div_digit: "0 \<le> r \<Longrightarrow> r < b \<Longrightarrow> (k * b + r) div b = k" for k b r :: int
  by simp

lemma mod_digit: "0 \<le> r \<Longrightarrow> r < b \<Longrightarrow> (k * b + r) mod b = r" for k b r :: int
  by simp

lemma le_div_digit: "k * 256 \<le> n \<Longrightarrow> k \<le> n div 256" for k n :: int
  using zdiv_mono1 [of "k * 256" n 256] by simp

lemma div_lt_digit: "n < k * 256 \<Longrightarrow> n div 256 < k" for k n :: int
  by (simp add: div_less_iff_less_mult)

text \<open>A blended channel is a byte again: the interpolation does not leave the range
  of the two bytes it mixes.\<close>

lemma blend_channel_bounds:
  fixes a s d :: int
  assumes "0 \<le> a" "a \<le> 255" "0 \<le> s" "s \<le> 255" "0 \<le> d" "d \<le> 255"
  shows "0 \<le> d + ((s - d) * a + 128) div 256 \<and> d + ((s - d) * a + 128) div 256 \<le> 255"
proof -
  have e: "(s - d) * a = s * a - d * a" by (simp add: algebra_simps)
  have 1: "0 \<le> s * a" using assms by simp
  have 2: "d * a \<le> d * 255"
    by (rule mult_left_mono) (use assms in simp_all)
  have 3: "s * a \<le> 255 * a"
    by (rule mult_right_mono) (use assms in simp_all)
  have 5: "(255 - d) * a \<le> (255 - d) * 255"
    by (rule mult_left_mono) (use assms in simp_all)
  have 6: "(255 - d) * a = 255 * a - d * a" by (simp add: algebra_simps)
  have 7: "(255 - d) * 255 = 65025 - d * 255" by (simp add: algebra_simps)
  from e 1 2 have lo: "- (d * 256) \<le> (s - d) * a + 128" using assms by linarith
  from 5 have 8: "255 * a - d * a \<le> 65025 - d * 255" unfolding 6 7 .
  have 9: "(256 - d) * 256 = 65536 - d * 256" by (simp add: algebra_simps)
  from 3 8 have hi: "(s - d) * a + 128 < (256 - d) * 256" unfolding e 9 using assms by linarith
  from lo have "- d \<le> ((s - d) * a + 128) div 256"
    by (intro le_div_digit) simp
  moreover from hi have "((s - d) * a + 128) div 256 < 256 - d"
    by (intro div_lt_digit) simp
  ultimately show ?thesis by linarith
qed

lemma shift_mod32: "(n mod 4294967296) div 256 = (n div 256) mod 16777216" for n :: int
proof -
  have "n mod (256 * 16777216) = (n div 256 mod 16777216) * 256 + n mod 256"
    by (subst zmod_zmult2_eq) simp_all
  then have "n mod 4294967296 div 256 = ((n div 256 mod 16777216) * 256 + n mod 256) div 256"
    by simp
  also have "\<dots> = n div 256 mod 16777216"
    by (rule div_digit) simp_all
  finally show ?thesis .
qed

lemma byte2_mod: "(n mod 16777216) div 65536 = (n div 65536) mod 256" for n :: int
proof -
  have "n mod (65536 * 256) = (n div 65536 mod 256) * 65536 + n mod 65536"
    by (subst zmod_zmult2_eq) simp_all
  then have "n mod 16777216 div 65536 = ((n div 65536 mod 256) * 65536 + n mod 65536) div 65536"
    by simp
  also have "\<dots> = n div 65536 mod 256"
    by (rule div_digit) simp_all
  finally show ?thesis .
qed

lemma byte1_mod: "(n mod 65536) div 256 = (n div 256) mod 256" for n :: int
proof -
  have "n mod (256 * 256) = (n div 256 mod 256) * 256 + n mod 256"
    by (subst zmod_zmult2_eq) simp_all
  then have "n mod 65536 div 256 = ((n div 256 mod 256) * 256 + n mod 256) div 256"
    by simp
  also have "\<dots> = n div 256 mod 256"
    by (rule div_digit) simp_all
  finally show ?thesis .
qed

text \<open>
  The red-blue pair. \<open>V\<close> is the formula in the integers, where nothing wraps and the
  division rounds down; \<open>Y\<close> is what the 32-bit operations of the source compute. They
  agree on the low 24 bits, and the bytes 0 and 2 of \<open>V\<close> are the two blended
  channels: the borrow the blue difference takes from the red one when it is negative
  is given back by the carry of the final addition.
\<close>

lemma rb_arith:
  fixes a sR sB dR dB :: int
  assumes "0 \<le> a" "a \<le> 255" "0 \<le> sR" "sR \<le> 255" "0 \<le> sB" "sB \<le> 255"
    and "0 \<le> dR" "dR \<le> 255" "0 \<le> dB" "dB \<le> 255"
  defines "N \<equiv> ((sR * 65536 + sB) - (dR * 65536 + dB)) * a + 8388736"
  defines "V \<equiv> (dR * 65536 + dB) + N div 256"
  defines "Y \<equiv> (N mod 4294967296 div 256 + (dR * 65536 + dB)) mod 4294967296"
  shows "Y mod 16777216 = V" and "0 \<le> V" and "V < 16777216"
    and "V mod 256 = dB + ((sB - dB) * a + 128) div 256"
    and "V div 65536 mod 256 = dR + ((sR - dR) * a + 128) div 256"
proof -
  define p where "p = (sB - dB) * a + 128"
  define q where "q = (sR - dR) * a + 128"
  define u where "u = p div 256"
  define s where "s = q div 256"
  have N: "N = q * 65536 + p" by (simp add: N_def p_def q_def algebra_simps)
  from blend_channel_bounds [of a sB dB] assms
  have ub: "0 \<le> dB + u" "dB + u \<le> 255" by (simp_all add: u_def p_def)
  from blend_channel_bounds [of a sR dR] assms
  have sb: "0 \<le> dR + s" "dR + s \<le> 255" by (simp_all add: s_def q_def)
  define t where "t = q mod 256"
  have t: "0 \<le> t" "t < 256" by (simp_all add: t_def)
  have q: "q = s * 256 + t" by (simp add: s_def t_def)
  define v where "v = p mod 256"
  have v: "0 \<le> v" "v < 256" by (simp_all add: v_def)
  have p: "p = u * 256 + v" by (simp add: u_def v_def)
  define M where "M = s * 65536 + t * 256 + u"
  have "N = M * 256 + v" by (simp add: N q p M_def)
  with v have Nd: "N div 256 = M" by (simp only: div_digit)
  define D where "D = dR * 65536 + dB"
  have V: "V = (dR + s) * 65536 + t * 256 + (dB + u)"
    by (simp add: V_def Nd M_def algebra_simps)
  show V0: "0 \<le> V" and V24: "V < 16777216"
    unfolding V using ub sb t by simp_all
  have Y: "Y = (M mod 16777216 + D) mod 4294967296"
    by (simp add: Y_def D_def shift_mod32 Nd)
  have "Y mod 16777216 = (M mod 16777216 + D) mod 16777216"
    unfolding Y by (rule mod_mod_cancel) simp
  also have "\<dots> = (M + D) mod 16777216" by (simp add: mod_simps)
  also have "M + D = V" by (simp add: V_def Nd D_def)
  also have "V mod 16777216 = V"
    using V0 V24 by simp
  finally show "Y mod 16777216 = V" .
  have "V = ((dR + s) * 256 + t) * 256 + (dB + u)"
    unfolding V by (simp add: algebra_simps)
  then have "V mod 256 = dB + u" using ub by (simp only: mod_digit)
  then show "V mod 256 = dB + ((sB - dB) * a + 128) div 256"
    by (simp add: u_def p_def)
  have "0 \<le> t * 256 + (dB + u)" "t * 256 + (dB + u) < 65536" using ub t by simp_all
  moreover have "V = (dR + s) * 65536 + (t * 256 + (dB + u))"
    unfolding V by simp
  ultimately have "V div 65536 = dR + s" by (simp only: div_digit)
  then show "V div 65536 mod 256 = dR + ((sR - dR) * a + 128) div 256"
    using sb by (simp add: s_def q_def)
qed

text \<open>The green channel, in the same way, on the low 16 bits.\<close>

lemma g_arith:
  fixes a sG dG :: int
  assumes "0 \<le> a" "a \<le> 255" "0 \<le> sG" "sG \<le> 255" "0 \<le> dG" "dG \<le> 255"
  defines "N \<equiv> (sG * 256 - dG * 256) * a + 32768"
  defines "V \<equiv> dG * 256 + N div 256"
  defines "Y \<equiv> (N mod 4294967296 div 256 + dG * 256) mod 4294967296"
  shows "Y mod 65536 = V" and "0 \<le> V" and "V < 65536"
    and "V div 256 mod 256 = dG + ((sG - dG) * a + 128) div 256"
proof -
  define q where "q = (sG - dG) * a + 128"
  define s where "s = q div 256"
  define t where "t = q mod 256"
  have t: "0 \<le> t" "t < 256" by (simp_all add: t_def)
  have q: "q = s * 256 + t" by (simp add: s_def t_def)
  from blend_channel_bounds [of a sG dG] assms
  have sb: "0 \<le> dG + s" "dG + s \<le> 255" by (simp_all add: s_def q_def)
  have "N = q * 256" by (simp add: N_def q_def algebra_simps)
  then have Nd: "N div 256 = q" by simp
  have V: "V = (dG + s) * 256 + t"
    by (simp add: V_def Nd q algebra_simps)
  show V0: "0 \<le> V" and V16: "V < 65536"
    unfolding V using sb t by simp_all
  have Y: "Y = (q mod 16777216 + dG * 256) mod 4294967296"
    by (simp add: Y_def shift_mod32 Nd)
  have "Y mod 65536 = (q mod 16777216 + dG * 256) mod 65536"
    unfolding Y by (rule mod_mod_cancel) simp
  also have "\<dots> = (q mod 16777216 mod 65536 + dG * 256) mod 65536" by (simp add: mod_simps)
  also have "q mod 16777216 mod 65536 = q mod 65536" by (rule mod_mod_cancel) simp
  also have "(q mod 65536 + dG * 256) mod 65536 = (q + dG * 256) mod 65536"
    by (simp add: mod_simps)
  also have "q + dG * 256 = V" by (simp add: V_def Nd)
  also have "V mod 65536 = V" using V0 V16 by simp
  finally show "Y mod 65536 = V" .
  have "V div 256 = dG + s" unfolding V using t by (simp only: div_digit)
  then show "V div 256 mod 256 = dG + ((sG - dG) * a + 128) div 256"
    using sb by (simp add: s_def q_def)
qed

subsection \<open>From the 32-bit operations to the integers\<close>

lemma mask_rb: "(0xff00ff :: u32) = mask 8 OR push_bit 16 (mask 8)"
  by (simp add: mask_numeral)

lemma mask_g: "(0x00ff00 :: u32) = push_bit 8 (mask 8)"
  by (simp add: mask_numeral)

lemma mask_a: "(0xff :: u32) = mask 8"
  by (simp add: mask_numeral)

lemma mask_rgb: "(0xffffff :: u32) = mask 24"
  by (simp add: mask_numeral)

lemma and_alpha: "(w :: u32) AND 0xff = ucast (ucast w :: u8)"
  unfolding mask_a by (rule bit_word_eqI) (auto simp: bit_simps)

lemma and_rb:
  "(w :: u32) AND 0xff00ff =
     ucast (ucast w :: u8) + push_bit 16 (ucast (ucast (drop_bit 16 w) :: u8))"
proof -
  have "w AND 0xff00ff =
      ucast (ucast w :: u8) OR push_bit 16 (ucast (ucast (drop_bit 16 w) :: u8))"
    unfolding mask_rb by (rule bit_word_eqI) (auto simp: bit_simps)
  also have "\<dots> = ucast (ucast w :: u8) + push_bit 16 (ucast (ucast (drop_bit 16 w) :: u8))"
    by (rule disjunctive_add_eq_or [symmetric], rule bit_word_eqI)
       (auto simp: bit_simps dest: bit_imp_le_length)
  finally show ?thesis .
qed

lemma and_g: "(w :: u32) AND 0x00ff00 = push_bit 8 (ucast (ucast (drop_bit 8 w) :: u8))"
  unfolding mask_g by (rule bit_word_eqI) (auto simp: bit_simps)

text \<open>The bytes of the word \<open>rb | g\<close> that the function stores.\<close>

lemma blend_out_blue: "(ucast (((y :: u32) AND 0xff00ff) OR (g AND 0x00ff00)) :: u8) = ucast y"
  unfolding mask_rb mask_g by (rule bit_word_eqI) (auto simp: bit_simps)

lemma blend_out_green:
  "(ucast (drop_bit 8 (((y :: u32) AND 0xff00ff) OR (g AND 0x00ff00))) :: u8)
     = ucast (drop_bit 8 g)"
  unfolding mask_rb mask_g by (rule bit_word_eqI) (auto simp: bit_simps)

lemma blend_out_red:
  "(ucast (drop_bit 16 (((y :: u32) AND 0xff00ff) OR (g AND 0x00ff00))) :: u8)
     = ucast (drop_bit 16 y)"
  unfolding mask_rb mask_g by (rule bit_word_eqI) (auto simp: bit_simps)

lemma blend_out_reserved:
  "(ucast (drop_bit 24 (((y :: u32) AND 0xff00ff) OR (g AND 0x00ff00))) :: u8) = 0"
  unfolding mask_rb mask_g by (rule bit_word_eqI) (auto simp: bit_simps)

lemma blend_out_rb:
  "(((y :: u32) AND 0xff00ff) OR (g AND 0x00ff00)) AND 0xff00ff = y AND 0xff00ff"
  unfolding mask_rb mask_g by (rule bit_word_eqI) (auto simp: bit_simps)

lemma blend_out_g:
  "(((y :: u32) AND 0xff00ff) OR (g AND 0x00ff00)) AND 0x00ff00 = g AND 0x00ff00"
  unfolding mask_rb mask_g by (rule bit_word_eqI) (auto simp: bit_simps)

lemma uint_u8: "0 \<le> uint (b :: u8) \<and> uint b \<le> 255"
  using uint_lt2p [of b] by simp

lemma u8_eqI: "uint (a :: u8) = uint b \<Longrightarrow> a = b"
  by (simp add: word_uint_eq_iff)

lemma uint_ucast_u8: "uint (ucast (b :: u8) :: u32) = uint b"
  by (simp add: unsigned_ucast_eq take_bit_int_eq_self
      less_trans [OF uint_lt2p [of b, simplified]])

lemma uint_rb_sum:
  "uint (ucast (b :: u8) + push_bit 16 (ucast (r :: u8)) :: u32) = uint r * 65536 + uint b"
  using uint_u8 [of b] uint_u8 [of r]
  by (simp add: uint_word_ariths unsigned_push_bit_eq uint_ucast_u8 push_bit_eq_mult
      take_bit_eq_mod)

lemma uint_g_shift:
  "uint (push_bit 8 (ucast (g :: u8)) :: u32) = uint g * 256"
  using uint_u8 [of g]
  by (simp add: uint_word_ariths uint_ucast_u8 push_bit_eq_mult)

lemma uint_low_byte: "uint (ucast (w :: u32) :: u8) = uint w mod 256"
  by (simp add: unsigned_ucast_eq take_bit_eq_mod)

lemma uint_drop8: "uint (drop_bit 8 (w :: u32)) = uint w div 256"
  by (simp add: drop_bit_eq_div uint_div)

lemma uint_drop16: "uint (drop_bit 16 (w :: u32)) = uint w div 65536"
  by (simp add: drop_bit_eq_div uint_div)

lemma uint_blend_rb:
  "uint (drop_bit 8 ((s - d) * a + 0x800080) + d :: u32) =
     (((uint s - uint d) * uint a + 8388736) mod 4294967296 div 256 + uint d) mod 4294967296"
  by (simp add: uint_word_ariths uint_drop8 mod_simps)

lemma uint_blend_g:
  "uint (drop_bit 8 ((s - d) * a + 0x008000) + d :: u32) =
     (((uint s - uint d) * uint a + 32768) mod 4294967296 div 256 + uint d) mod 4294967296"
  by (simp add: uint_word_ariths uint_drop8 mod_simps)

lemma pixel_blend_split:
  "pixel_blend dst source =
     ((drop_bit 8 (((drop_bit 8 source AND 0xff00ff) - (dst AND 0xff00ff)) * (source AND 0xff)
                    + 0x800080)
        + (dst AND 0xff00ff)) AND 0xff00ff) OR
     ((drop_bit 8 (((drop_bit 8 source AND 0x00ff00) - (dst AND 0x00ff00)) * (source AND 0xff)
                    + 0x008000)
        + (dst AND 0x00ff00)) AND 0x00ff00)"
  by (simp add: pixel_blend_def Let_def)

lemma uint_src_rb:
  "uint (drop_bit 8 (source :: u32) AND 0xff00ff) =
     uint (ucast (drop_bit 24 source) :: u8) * 65536 + uint (ucast (drop_bit 8 source) :: u8)"
  by (simp add: and_rb uint_rb_sum)

lemma uint_dst_rb:
  "uint ((dst :: u32) AND 0xff00ff) =
     uint (ucast (drop_bit 16 dst) :: u8) * 65536 + uint (ucast dst :: u8)"
  by (simp add: and_rb uint_rb_sum)

lemma uint_src_g:
  "uint (drop_bit 8 (source :: u32) AND 0x00ff00) = uint (ucast (drop_bit 16 source) :: u8) * 256"
  by (simp add: and_g uint_g_shift)

lemma uint_dst_g:
  "uint ((dst :: u32) AND 0x00ff00) = uint (ucast (drop_bit 8 dst) :: u8) * 256"
  by (simp add: and_g uint_g_shift)

lemma uint_alpha: "uint ((source :: u32) AND 0xff) = uint (ucast source :: u8)"
  by (simp add: and_alpha uint_ucast_u8)

text \<open>Masking an integer with a channel mask looks at its low 24 (or 16) bits only.\<close>

lemma int_and_rb: "(y :: int) AND 0xff00ff = (y mod 16777216) AND 0xff00ff"
proof -
  have m: "(0xff00ff :: int) = mask 8 OR push_bit 16 (mask 8)"
    by (simp add: mask_numeral)
  have "y AND 0xff00ff = take_bit 24 y AND 0xff00ff"
    unfolding m by (rule bit_eqI) (auto simp: bit_simps)
  then show ?thesis by (simp add: take_bit_eq_mod)
qed

lemma int_and_g: "(y :: int) AND 0x00ff00 = (y mod 65536) AND 0x00ff00"
proof -
  have m: "(0x00ff00 :: int) = push_bit 8 (mask 8)"
    by (simp add: mask_numeral)
  have "y AND 0x00ff00 = take_bit 16 y AND 0x00ff00"
    unfolding m by (rule bit_eqI) (auto simp: bit_simps)
  then show ?thesis by (simp add: take_bit_eq_mod)
qed

subsection \<open>The pixel structure and its word\<close>

lemma word_pixel_pixel_word: "word_pixel (pixel_word p) = p"
proof -
  have "ucast (pixel_word p) = Blue p" "ucast (drop_bit 8 (pixel_word p)) = Green p"
    "ucast (drop_bit 16 (pixel_word p)) = Red p" "ucast (drop_bit 24 (pixel_word p)) = Reserved p"
    unfolding pixel_word_def
    by (rule bit_word_eqI; auto simp: bit_simps dest: bit_imp_le_length)+
  then show ?thesis by (simp add: word_pixel_def)
qed

lemma low24:
  "(w :: u32) AND 0xffffff =
     pixel_word \<lparr> Blue = ucast w, Green = ucast (drop_bit 8 w),
                  Red = ucast (drop_bit 16 w), Reserved = 0 \<rparr>"
  unfolding pixel_word_def mask_rgb EFI_GRAPHICS_OUTPUT_BLT_PIXEL.select_convs
proof (rule bit_word_eqI)
  fix n assume "n < LENGTH(32)"
  consider "n < 8" | "8 \<le> n" "n < 16" | "16 \<le> n" "n < 24" | "24 \<le> n" by linarith
  then show "bit (w AND mask 24) n \<longleftrightarrow>
      bit (ucast (ucast w :: u8) OR push_bit 8 (ucast (ucast (drop_bit 8 w) :: u8)) OR
           push_bit 16 (ucast (ucast (drop_bit 16 w) :: u8)) OR
           push_bit 24 (ucast (0 :: u8)) :: u32) n"
    by cases (auto simp: bit_simps)
qed

subsection \<open>The channels of a blended pixel\<close>

lemma pixel_blend_channels:
  fixes dst source :: u32
  defines "a \<equiv> uint (ucast source :: u8)"
    and "sB \<equiv> uint (ucast (drop_bit 8 source) :: u8)"
    and "sG \<equiv> uint (ucast (drop_bit 16 source) :: u8)"
    and "sR \<equiv> uint (ucast (drop_bit 24 source) :: u8)"
    and "dB \<equiv> uint (ucast dst :: u8)"
    and "dG \<equiv> uint (ucast (drop_bit 8 dst) :: u8)"
    and "dR \<equiv> uint (ucast (drop_bit 16 dst) :: u8)"
  shows "uint (Blue (word_pixel (pixel_blend dst source))) = dB + ((sB - dB) * a + 128) div 256"
    and "uint (Green (word_pixel (pixel_blend dst source))) = dG + ((sG - dG) * a + 128) div 256"
    and "uint (Red (word_pixel (pixel_blend dst source))) = dR + ((sR - dR) * a + 128) div 256"
    and "Reserved (word_pixel (pixel_blend dst source)) = 0"
proof -
  note b = uint_u8 [of "ucast source"] uint_u8 [of "ucast (drop_bit 8 source)"]
    uint_u8 [of "ucast (drop_bit 16 source)"] uint_u8 [of "ucast (drop_bit 24 source)"]
    uint_u8 [of "ucast dst"] uint_u8 [of "ucast (drop_bit 8 dst)"]
    uint_u8 [of "ucast (drop_bit 16 dst)"]
  let ?yrb = "drop_bit 8 (((drop_bit 8 source AND 0xff00ff) - (dst AND 0xff00ff))
                 * (source AND 0xff) + 0x800080) + (dst AND 0xff00ff)"
  let ?yg = "drop_bit 8 (((drop_bit 8 source AND 0x00ff00) - (dst AND 0x00ff00))
                 * (source AND 0xff) + 0x008000) + (dst AND 0x00ff00)"
  let ?Nrb = "((sR * 65536 + sB) - (dR * 65536 + dB)) * a + 8388736"
  let ?Ng = "(sG * 256 - dG * 256) * a + 32768"
  have yrb: "uint ?yrb = (?Nrb mod 4294967296 div 256 + (dR * 65536 + dB)) mod 4294967296"
    unfolding uint_blend_rb uint_src_rb uint_dst_rb uint_alpha
    by (simp add: a_def sB_def sR_def dB_def dR_def)
  have yg: "uint ?yg = (?Ng mod 4294967296 div 256 + dG * 256) mod 4294967296"
    unfolding uint_blend_g uint_src_g uint_dst_g uint_alpha
    by (simp add: a_def sG_def dG_def)
  have rb: "uint ?yrb mod 16777216 = (dR * 65536 + dB) + ?Nrb div 256"
    unfolding yrb using b by (intro rb_arith) (simp_all add: a_def sB_def sR_def dB_def dR_def)
  have g: "uint ?yg mod 65536 = dG * 256 + ?Ng div 256"
    unfolding yg using b by (intro g_arith) (simp_all add: a_def sG_def dG_def)
  have "uint (Blue (word_pixel (pixel_blend dst source))) = uint ?yrb mod 256"
    unfolding pixel_blend_split
    by (simp only: word_pixel_def EFI_GRAPHICS_OUTPUT_BLT_PIXEL.select_convs
        blend_out_blue uint_low_byte)
  also have "\<dots> = uint ?yrb mod 16777216 mod 256"
    by (rule mod_mod_cancel [symmetric]) simp
  also have "\<dots> = dB + ((sB - dB) * a + 128) div 256"
    unfolding rb using b by (intro rb_arith) (simp_all add: a_def sB_def sR_def dB_def dR_def)
  finally show "uint (Blue (word_pixel (pixel_blend dst source)))
      = dB + ((sB - dB) * a + 128) div 256" .
  have "uint (Red (word_pixel (pixel_blend dst source))) = uint ?yrb div 65536 mod 256"
    unfolding pixel_blend_split
    by (simp only: word_pixel_def EFI_GRAPHICS_OUTPUT_BLT_PIXEL.select_convs
        blend_out_red uint_low_byte uint_drop16)
  also have "\<dots> = uint ?yrb mod 16777216 div 65536"
    by (rule byte2_mod [symmetric])
  also have "\<dots> = ((dR * 65536 + dB) + ?Nrb div 256) div 65536 mod 256"
    unfolding rb
    using rb_arith(2,3) [of a sR sB dR dB] b
    by (simp add: a_def sB_def sR_def dB_def dR_def byte2_mod [symmetric])
  also have "\<dots> = dR + ((sR - dR) * a + 128) div 256"
    using b by (intro rb_arith) (simp_all add: a_def sB_def sR_def dB_def dR_def)
  finally show "uint (Red (word_pixel (pixel_blend dst source)))
      = dR + ((sR - dR) * a + 128) div 256" .
  have "uint (Green (word_pixel (pixel_blend dst source))) = uint ?yg div 256 mod 256"
    unfolding pixel_blend_split
    by (simp only: word_pixel_def EFI_GRAPHICS_OUTPUT_BLT_PIXEL.select_convs
        blend_out_green uint_low_byte uint_drop8)
  also have "\<dots> = uint ?yg mod 65536 div 256"
    by (rule byte1_mod [symmetric])
  also have "\<dots> = (dG * 256 + ?Ng div 256) div 256 mod 256"
    unfolding g
    using g_arith(2,3) [of a sG dG] b
    by (simp add: a_def sG_def dG_def byte1_mod [symmetric])
  also have "\<dots> = dG + ((sG - dG) * a + 128) div 256"
    using b by (intro g_arith) (simp_all add: a_def sG_def dG_def)
  finally show "uint (Green (word_pixel (pixel_blend dst source)))
      = dG + ((sG - dG) * a + 128) div 256" .
  show "Reserved (word_pixel (pixel_blend dst source)) = 0"
    unfolding pixel_blend_split
    by (simp only: word_pixel_def EFI_GRAPHICS_OUTPUT_BLT_PIXEL.select_convs
        blend_out_reserved)
qed

text \<open>The two channel groups of the result against the formula in the integers.\<close>

lemma pixel_blend_groups:
  fixes dst source :: u32
  defines "alpha \<equiv> uint (source AND 0xff)"
    and "src_rb \<equiv> uint (drop_bit 8 source AND 0xff00ff)"
    and "src_g \<equiv> uint (drop_bit 8 source AND 0x00ff00)"
    and "dst_rb \<equiv> uint (dst AND 0xff00ff)"
    and "dst_g \<equiv> uint (dst AND 0x00ff00)"
  shows "uint (pixel_blend dst source AND 0xff00ff) =
           (dst_rb + ((src_rb - dst_rb) * alpha + 0x800080) div 256) AND 0xff00ff"
    and "uint (pixel_blend dst source AND 0x00ff00) =
           (dst_g + ((src_g - dst_g) * alpha + 0x008000) div 256) AND 0x00ff00"
proof -
  note b = uint_u8 [of "ucast source"] uint_u8 [of "ucast (drop_bit 8 source)"]
    uint_u8 [of "ucast (drop_bit 16 source)"] uint_u8 [of "ucast (drop_bit 24 source)"]
    uint_u8 [of "ucast dst"] uint_u8 [of "ucast (drop_bit 8 dst)"]
    uint_u8 [of "ucast (drop_bit 16 dst)"]
  let ?yrb = "drop_bit 8 (((drop_bit 8 source AND 0xff00ff) - (dst AND 0xff00ff))
                 * (source AND 0xff) + 0x800080) + (dst AND 0xff00ff)"
  let ?yg = "drop_bit 8 (((drop_bit 8 source AND 0x00ff00) - (dst AND 0x00ff00))
                 * (source AND 0xff) + 0x008000) + (dst AND 0x00ff00)"
  have "uint (pixel_blend dst source AND 0xff00ff) = uint (?yrb AND 0xff00ff)"
    unfolding pixel_blend_split by (simp only: blend_out_rb)
  also have "\<dots> = uint ?yrb AND 0xff00ff"
    by (simp add: unsigned_and_eq)
  also have "\<dots> = (uint ?yrb mod 16777216) AND 0xff00ff"
    by (rule int_and_rb)
  also have "uint ?yrb mod 16777216 = dst_rb + ((src_rb - dst_rb) * alpha + 0x800080) div 256"
    unfolding uint_blend_rb alpha_def src_rb_def dst_rb_def
    unfolding uint_src_rb uint_dst_rb uint_alpha
    using b by (intro rb_arith) simp_all
  finally show "uint (pixel_blend dst source AND 0xff00ff) =
      (dst_rb + ((src_rb - dst_rb) * alpha + 0x800080) div 256) AND 0xff00ff" .
  have "uint (pixel_blend dst source AND 0x00ff00) = uint (?yg AND 0x00ff00)"
    unfolding pixel_blend_split by (simp only: blend_out_g)
  also have "\<dots> = uint ?yg AND 0x00ff00"
    by (simp add: unsigned_and_eq)
  also have "\<dots> = (uint ?yg mod 65536) AND 0x00ff00"
    by (rule int_and_g)
  also have "uint ?yg mod 65536 = dst_g + ((src_g - dst_g) * alpha + 0x008000) div 256"
    unfolding uint_blend_g alpha_def src_g_def dst_g_def
    unfolding uint_src_g uint_dst_g uint_alpha
    using b by (intro g_arith) simp_all
  finally show "uint (pixel_blend dst source AND 0x00ff00) =
      (dst_g + ((src_g - dst_g) * alpha + 0x008000) div 256) AND 0x00ff00" .
qed

text \<open>With alpha 0 the result is the destination with its fourth byte cleared.\<close>

lemma pixel_blend_alpha_0:
  assumes "source AND 0xff = 0"
  shows "pixel_blend dst source = dst AND 0xffffff"
proof -
  have a: "uint (ucast source :: u8) = 0"
    using assms uint_alpha [of source] by simp
  let ?q = "word_pixel (pixel_blend dst source)"
  have ch: "Blue ?q = ucast dst" "Green ?q = ucast (drop_bit 8 dst)"
    "Red ?q = ucast (drop_bit 16 dst)" "Reserved ?q = 0"
    using pixel_blend_channels [of dst source] by (simp_all add: a u8_eqI)
  have r: "ucast (drop_bit 24 (pixel_blend dst source)) = (0 :: u8)"
    using ch(4) by (simp add: word_pixel_def)
  from ch have q: "?q = \<lparr> Blue = ucast dst, Green = ucast (drop_bit 8 dst),
      Red = ucast (drop_bit 16 dst), Reserved = 0 \<rparr>"
    by simp
  have "pixel_blend dst source = pixel_blend dst source AND 0xffffff"
    unfolding pixel_blend_split mask_rb mask_g mask_rgb
    by (rule bit_word_eqI) (auto simp: bit_simps)
  also have "\<dots> = pixel_word ?q"
    unfolding low24 by (simp add: word_pixel_def r)
  also have "\<dots> = dst AND 0xffffff"
    unfolding q low24 ..
  finally show ?thesis .
qed

text \<open>
  C2. On the red-blue pair and on the green channel, the stored group is the formula
  \<open>dest + ((src - dest) * alpha + rounding) div 256\<close>, computed in the integers with
  the rounding constants \<open>0x800080\<close> and \<open>0x008000\<close>, masked with the group's mask; the
  result is the two groups put together. So every channel of the blended pixel is
  \<open>dest + ((src - dest) * alpha + 0x80) div 256\<close> of that channel, exactly, with no
  carry or borrow from its neighbour, and the fourth byte is 0. The source word has
  alpha in its low byte, then blue, green and red. Blending the source
  \<open>(R = 255, G = 0, B = 0, A = 128)\<close> onto the destination \<open>(R = 0, G = 0, B = 255)\<close>
  gives \<open>(R = 128, G = 0, B = 128)\<close>.
\<close>

theorem pixel_blend_exact:
  "(let alpha = uint (source AND 0xff);
        src_rb = uint (drop_bit 8 source AND 0xff00ff);
        src_g = uint (drop_bit 8 source AND 0x00ff00);
        dst_rb = uint (dst AND 0xff00ff);
        dst_g = uint (dst AND 0x00ff00)
    in uint (pixel_blend dst source AND 0xff00ff) =
         (dst_rb + ((src_rb - dst_rb) * alpha + 0x800080) div 256) AND 0xff00ff \<and>
       uint (pixel_blend dst source AND 0x00ff00) =
         (dst_g + ((src_g - dst_g) * alpha + 0x008000) div 256) AND 0x00ff00 \<and>
       pixel_blend dst source =
         (pixel_blend dst source AND 0xff00ff) OR (pixel_blend dst source AND 0x00ff00)) \<and>
   (let alpha = uint (ucast source :: u8);
        srcBlue = uint (ucast (drop_bit 8 source) :: u8);
        srcGreen = uint (ucast (drop_bit 16 source) :: u8);
        srcRed = uint (ucast (drop_bit 24 source) :: u8);
        q = word_pixel (pixel_blend (pixel_word p) source)
    in uint (Red q) = uint (Red p) + ((srcRed - uint (Red p)) * alpha + 0x80) div 256 \<and>
       uint (Green q) = uint (Green p) + ((srcGreen - uint (Green p)) * alpha + 0x80) div 256 \<and>
       uint (Blue q) = uint (Blue p) + ((srcBlue - uint (Blue p)) * alpha + 0x80) div 256 \<and>
       Reserved q = 0) \<and>
   word_pixel (pixel_blend (pixel_word \<lparr>Blue = 255, Green = 0, Red = 0, Reserved = 0\<rparr>)
                 0xFF000080)
     = \<lparr>Blue = 128, Green = 0, Red = 128, Reserved = 0\<rparr>"
proof -
  have join: "pixel_blend dst source =
      (pixel_blend dst source AND 0xff00ff) OR (pixel_blend dst source AND 0x00ff00)"
    unfolding pixel_blend_split mask_rb mask_g
    by (rule bit_word_eqI) (auto simp: bit_simps)
  have p: "ucast (pixel_word p) = Blue p" "ucast (drop_bit 8 (pixel_word p)) = Green p"
    "ucast (drop_bit 16 (pixel_word p)) = Red p"
    using word_pixel_pixel_word [of p] unfolding word_pixel_def
    by (cases p; simp)+
  have ex: "word_pixel (pixel_blend
        (pixel_word \<lparr>Blue = 255, Green = 0, Red = 0, Reserved = 0\<rparr>) 0xFF000080)
      = \<lparr>Blue = 128, Green = 0, Red = 128, Reserved = 0\<rparr>"
    by (simp add: pixel_blend_def pixel_word_def word_pixel_def)
  note g = pixel_blend_groups [of dst source]
  note c = pixel_blend_channels [of "pixel_word p" source, unfolded p]
  show ?thesis
    unfolding Let_def
    by (intro conjI) (rule g c join ex)+
qed

text \<open>The example, from the theorem: the three channels by the formula.\<close>

theorem pixel_blend_exact_witness:
  "uint (Red (word_pixel (pixel_blend
       (pixel_word \<lparr>Blue = 255, Green = 0, Red = 0, Reserved = 0\<rparr>) 0xFF000080)))
     = 0 + ((255 - 0) * 128 + 0x80) div 256 \<and>
   uint (Green (word_pixel (pixel_blend
       (pixel_word \<lparr>Blue = 255, Green = 0, Red = 0, Reserved = 0\<rparr>) 0xFF000080)))
     = 0 + ((0 - 0) * 128 + 0x80) div 256 \<and>
   uint (Blue (word_pixel (pixel_blend
       (pixel_word \<lparr>Blue = 255, Green = 0, Red = 0, Reserved = 0\<rparr>) 0xFF000080)))
     = 255 + ((0 - 255) * 128 + 0x80) div 256 \<and>
   pixel_blend 0x000000FF 0xFF000080 = 0x00800080"
proof -
  note t = pixel_blend_exact [of "0xFF000080" "0x000000FF"
      "\<lparr>Blue = 255, Green = 0, Red = 0, Reserved = 0\<rparr>", unfolded Let_def]
  have s: "uint (ucast (0xFF000080 :: u32) :: u8) = 128"
    "uint (ucast (drop_bit 8 (0xFF000080 :: u32)) :: u8) = 0"
    "uint (ucast (drop_bit 16 (0xFF000080 :: u32)) :: u8) = 0"
    "uint (ucast (drop_bit 24 (0xFF000080 :: u32)) :: u8) = 255"
    by simp_all
  have e: "pixel_blend 0x000000FF 0xFF000080 = 0x00800080"
    by (simp add: pixel_blend_def)
  from t show ?thesis
    unfolding s EFI_GRAPHICS_OUTPUT_BLT_PIXEL.select_convs using e by simp
qed

text \<open>
  C10. When the alpha byte of the source word is 0, blending leaves the red, green
  and blue channels of the destination pixel as they were and sets its fourth
  (reserved) byte to 0; on the 32-bit word, the result is the destination with its top
  byte cleared.
\<close>

theorem pixel_blend_alpha_zero:
  assumes "source AND 0xff = 0"
  shows "word_pixel (pixel_blend (pixel_word p) source) = p \<lparr>Reserved := 0\<rparr> \<and>
         pixel_blend dst source = dst AND 0xffffff"
proof -
  have "word_pixel (pixel_blend (pixel_word p) source) = word_pixel (pixel_word p AND 0xffffff)"
    by (simp only: pixel_blend_alpha_0 [OF assms])
  also have "\<dots> = word_pixel (pixel_word (word_pixel (pixel_word p) \<lparr>Reserved := 0\<rparr>))"
    unfolding low24 by (simp add: word_pixel_def)
  also have "\<dots> = p \<lparr>Reserved := 0\<rparr>"
    by (simp only: word_pixel_pixel_word)
  finally show ?thesis
    using pixel_blend_alpha_0 [OF assms] by simp
qed

theorem pixel_blend_alpha_zero_witness:
  "(0xAABBCC00 :: u32) AND 0xff = 0 \<and>
   word_pixel (pixel_blend (pixel_word \<lparr>Blue = 1, Green = 2, Red = 3, Reserved = 9\<rparr>)
                 0xAABBCC00)
     = \<lparr>Blue = 1, Green = 2, Red = 3, Reserved = 0\<rparr> \<and>
   pixel_blend 0x09030201 0xAABBCC00 = 0x00030201"
proof -
  have a: "(0xAABBCC00 :: u32) AND 0xff = 0" by simp
  from pixel_blend_alpha_zero [OF a, where p = "\<lparr>Blue = 1, Green = 2, Red = 3, Reserved = 9\<rparr>"
      and dst = "0x09030201"] a
  show ?thesis by simp
qed

section \<open>The pixel converter\<close>

subsection \<open>Depth 16\<close>

lemma le16_uint: "uint (le16 bmp cur) = uint (bmp ! cur) + 256 * uint (bmp ! (cur + 1))"
proof -
  have "le16 bmp cur = ucast (bmp ! cur) + push_bit 8 (ucast (bmp ! (cur + 1)))"
    unfolding le16_def
    by (rule disjunctive_add_eq_or [symmetric], rule bit_word_eqI)
       (auto simp: bit_simps dest: bit_imp_le_length)
  moreover have "uint (ucast (b :: u8) :: u16) = uint b" for b
    by (simp add: unsigned_ucast_eq take_bit_int_eq_self
      less_trans [OF uint_lt2p [of b, simplified]])
  ultimately show ?thesis
    using uint_u8 [of "bmp ! cur"] uint_u8 [of "bmp ! (cur + 1)"]
    by (simp add: uint_word_ariths push_bit_eq_mult)
qed

lemma mask_248: "(248 :: int) = push_bit 3 (mask 5)"
  by (simp add: mask_numeral)

text \<open>The three channels fit their byte: the conversion to \<^verbatim>\<open>UINT8\<close> cuts
  nothing off.\<close>

lemma red16:
  "uint (ucast (drop_bit 7 ((w :: u16) AND 0x7c00)) :: u8) = drop_bit 7 (uint w AND 0x7C00)"
  apply (simp add: unsigned_ucast_eq unsigned_drop_bit_eq unsigned_and_eq)
  unfolding mask_248
  apply (rule bit_eqI)
  apply (auto simp: bit_simps)
  done

lemma green16:
  "uint (ucast (drop_bit 2 ((w :: u16) AND 0x3e0)) :: u8) = drop_bit 2 (uint w AND 0x03E0)"
  apply (simp add: unsigned_ucast_eq unsigned_drop_bit_eq unsigned_and_eq)
  unfolding mask_248
  apply (rule bit_eqI)
  apply (auto simp: bit_simps)
  done

lemma blue16:
  "uint (ucast (push_bit 3 ((w :: u16) AND 0x1f)) :: u8) = push_bit 3 (uint w AND 0x001F)"
  apply (simp add: unsigned_ucast_eq unsigned_push_bit_eq unsigned_and_eq)
  unfolding mask_248
  apply (rule bit_eqI)
  apply (auto simp: bit_simps)
  done

lemma rgb_update_sel:
  "Red (p \<lparr>Blue := b, Green := g, Red := r\<rparr>) = r"
  "Green (p \<lparr>Blue := b, Green := g, Red := r\<rparr>) = g"
  "Blue (p \<lparr>Blue := b, Green := g, Red := r\<rparr>) = b"
  "Reserved (p \<lparr>Blue := b, Green := g, Red := r\<rparr>) = Reserved p"
  by simp_all

text \<open>
  C5. At depth 16 the switch reads the two bytes at the cursor as one little-endian
  16-bit word \<open>w\<close> and stores red \<open>= (w & 0x7C00) >> 7\<close>, green \<open>= (w & 0x03E0) >> 2\<close>
  and blue \<open>= (w & 0x001F) << 3\<close> in the pixel at \<open>out\<close>, the right-hand sides taken in
  the integers; the fourth byte of the pixel is left as it was, and the cursor has
  moved by one byte when the switch is left (the loop adds the second).
\<close>

theorem depth16_decode:
  assumes "dib_depth dib = 16" and "cur + 1 < length bmp" and "out < length buf"
  shows "(let w = le16 bmp cur in
           uint w = uint (bmp ! cur) + 256 * uint (bmp ! (cur + 1)) \<and>
           (\<exists>px. bmp_pixel dib bmp mp x cur out buf = Inr (x, cur + 1, out, buf[out := px]) \<and>
              uint (Red px) = drop_bit 7 (uint w AND 0x7C00) \<and>
              uint (Green px) = drop_bit 2 (uint w AND 0x03E0) \<and>
              uint (Blue px) = push_bit 3 (uint w AND 0x001F) \<and>
              Reserved px = Reserved (buf ! out)))"
proof -
  let ?w = "le16 bmp cur"
  let ?px = "(buf ! out) \<lparr> Blue := ucast (push_bit 3 (?w AND 0x1f)),
                    Green := ucast (drop_bit 2 (?w AND 0x3e0)),
                    Red := ucast (drop_bit 7 (?w AND 0x7c00)) \<rparr>"
  have "bmp_pixel dib bmp mp x cur out buf = Inr (x, cur + 1, out, buf[out := ?px])"
    using assms unfolding bmp_pixel_def Let_def by simp
  moreover have "uint (Red ?px) = drop_bit 7 (uint ?w AND 0x7C00)"
    "uint (Green ?px) = drop_bit 2 (uint ?w AND 0x03E0)"
    "uint (Blue ?px) = push_bit 3 (uint ?w AND 0x001F)"
    "Reserved ?px = Reserved (buf ! out)"
    unfolding rgb_update_sel
    by (rule red16 green16 blue16 refl)+
  ultimately show ?thesis
    unfolding Let_def using le16_uint [of bmp cur] by blast
qed

text \<open>The word \<open>0x1234\<close> decodes to red 32, green 136, blue 160, in the switch and
  through the whole of \<^verbatim>\<open>bmp_to_blt\<close>.\<close>

theorem depth16_decode_witness:
  "dib_depth (as_bmp_dib bmp_1x1_16) = 16 \<and> 54 + 1 < length bmp_1x1_16 \<and>
   0 < length [\<lparr>Blue = 7, Green = 7, Red = 7, Reserved = 9\<rparr>] \<and>
   uint (le16 bmp_1x1_16 54) = 0x1234 \<and>
   bmp_pixel (as_bmp_dib bmp_1x1_16) bmp_1x1_16 54 0 54 0
       [\<lparr>Blue = 7, Green = 7, Red = 7, Reserved = 9\<rparr>]
     = Inr (0, 55, 0, [\<lparr>Blue = 160, Green = 136, Red = 32, Reserved = 9\<rparr>]) \<and>
   bmp_to_blt bmp_1x1_16 [\<lparr>Blue = 7, Green = 7, Red = 7, Reserved = 9\<rparr>]
       (as_bmp_dib bmp_1x1_16) 54 54
     = Inr (EFI_SUCCESS, [\<lparr>Blue = 160, Green = 136, Red = 32, Reserved = 9\<rparr>])"
proof -
  have a: "dib_depth (as_bmp_dib bmp_1x1_16) = 16" "54 + 1 < length bmp_1x1_16"
    "0 < length [\<lparr>Blue = 7, Green = 7, Red = 7, Reserved = 9\<rparr>]"
    by (simp_all add: bmp_1x1_16_def as_bmp_dib_def le16_def le32_def)
  have b: "bmp_to_blt bmp_1x1_16 [\<lparr>Blue = 7, Green = 7, Red = 7, Reserved = 9\<rparr>]
       (as_bmp_dib bmp_1x1_16) 54 54
     = Inr (EFI_SUCCESS, [\<lparr>Blue = 160, Green = 136, Red = 32, Reserved = 9\<rparr>])"
    by (simp add: bmp_1x1_16_def as_bmp_dib_def le16_def le32_def convert_defs)
  have c: "bmp_pixel (as_bmp_dib bmp_1x1_16) bmp_1x1_16 54 0 54 0
       [\<lparr>Blue = 7, Green = 7, Red = 7, Reserved = 9\<rparr>]
     = Inr (0, 55, 0, [\<lparr>Blue = 160, Green = 136, Red = 32, Reserved = 9\<rparr>])"
    by (simp add: bmp_1x1_16_def as_bmp_dib_def le16_def le32_def bmp_pixel_def)
  have d: "uint (le16 bmp_1x1_16 54) = 0x1234"
    by (simp add: bmp_1x1_16_def le16_def)
  from depth16_decode [OF a, of 54 0] a b c d show ?thesis by simp
qed

subsection \<open>Palette indices\<close>

text \<open>
  C1 fails on the code. The image \<open>bmp_index_255\<close> is accepted by the validator: its
  colour table has the one entry its header declares. Its pixel has the index 255, and
  \<^verbatim>\<open>bmp_to_blt\<close>, which has no check of the index and no error path, reads
  \<^verbatim>\<open>map[255].red\<close> at offset \<open>54 + 4 * 255 + 2 = 1076\<close> of an input of 62 bytes;
  \<^verbatim>\<open>graphics_splash\<close> has filled and captured the surface by then. With the
  index 1 the read stays inside the input, beyond the colour table and in the pixel
  rows, and the function returns \<open>EFI_SUCCESS\<close> with a colour made of the bytes of the
  pixel row. The validator bounds the pixel rows and measures the colour table against
  the declared entry count; the index of a pixel is compared with nothing. The last
  section shows what keeps a conversion inside the input.
\<close>

theorem palette_index_unchecked:
  "length bmp_index_255 = 62 \<and>
   bmp_parse_header bmp_index_255 = Inr (as_bmp_dib bmp_index_255, 54, 58) \<and>
   dib_depth (as_bmp_dib bmp_index_255) = 8 \<and>
   palette_entry_count (as_bmp_dib bmp_index_255) = 1 \<and>
   bmp_to_blt bmp_index_255 [\<lparr>Blue = 0, Green = 0, Red = 0, Reserved = 0\<rparr>]
       (as_bmp_dib bmp_index_255) 54 58 = Inl (ReadOutside 1076) \<and>
   graphics_splash fw_10x10 bmp_index_255 None =
     (Inl (ReadOutside 1076),
      [LocateProtocol,
       EfiBltVideoFill \<lparr>Blue = 0, Green = 0, Red = 0, Reserved = 0\<rparr> 10 10,
       EfiBltVideoToBltBuffer 4 4 1 1]) \<and>
   bmp_parse_header (bmp_index_255[58 := 1])
     = Inr (as_bmp_dib (bmp_index_255[58 := 1]), 54, 58) \<and>
   bmp_to_blt (bmp_index_255[58 := 1]) [\<lparr>Blue = 0, Green = 0, Red = 0, Reserved = 0\<rparr>]
       (as_bmp_dib (bmp_index_255[58 := 1])) 54 58
     = Inr (EFI_SUCCESS, [\<lparr>Blue = 1, Green = 0, Red = 0, Reserved = 0\<rparr>])"
proof -
  have "length bmp_index_255 = 62"
    by (simp add: bmp_index_255_def)
  moreover have "bmp_parse_header bmp_index_255 = Inr (as_bmp_dib bmp_index_255, 54, 58)"
    by (simp add: header_defs bmp_index_255_def)
  moreover have "dib_depth (as_bmp_dib bmp_index_255) = 8"
    "palette_entry_count (as_bmp_dib bmp_index_255) = 1"
    by (simp_all add: bmp_index_255_def as_bmp_dib_def le16_def le32_def palette_entry_count_def)
  moreover have "bmp_to_blt bmp_index_255 [\<lparr>Blue = 0, Green = 0, Red = 0, Reserved = 0\<rparr>]
       (as_bmp_dib bmp_index_255) 54 58 = Inl (ReadOutside 1076)"
    by (simp add: bmp_index_255_def as_bmp_dib_def le16_def le32_def sizeof_bmp_map_def
        convert_defs)
  moreover have "graphics_splash fw_10x10 bmp_index_255 None =
     (Inl (ReadOutside 1076),
      [LocateProtocol,
       EfiBltVideoFill \<lparr>Blue = 0, Green = 0, Red = 0, Reserved = 0\<rparr> 10 10,
       EfiBltVideoToBltBuffer 4 4 1 1])"
    by (simp add: graphics_splash_def header_defs fw_10x10_def splash_pos_def
        bmp_index_255_def convert_defs upt_conv_Cons)
  moreover have "bmp_parse_header (bmp_index_255[58 := 1])
     = Inr (as_bmp_dib (bmp_index_255[58 := 1]), 54, 58)"
    by (simp add: header_defs bmp_index_255_def)
  moreover have "bmp_to_blt (bmp_index_255[58 := 1])
       [\<lparr>Blue = 0, Green = 0, Red = 0, Reserved = 0\<rparr>]
       (as_bmp_dib (bmp_index_255[58 := 1])) 54 58
     = Inr (EFI_SUCCESS, [\<lparr>Blue = 1, Green = 0, Red = 0, Reserved = 0\<rparr>])"
    by (simp add: bmp_index_255_def as_bmp_dib_def le16_def le32_def sizeof_bmp_map_def
        convert_defs)
  ultimately show ?thesis by blast
qed

subsection \<open>Rows\<close>

text \<open>A palette store that did not fault wrote the palette entry at \<open>out\<close>.\<close>

lemma put_map_Inr:
  assumes "put_map bmp mp i out buf = Inr buf'"
  shows "buf' = buf[out := palette_pixel bmp mp i (buf ! out)]" and "out < length buf"
  using assms
  by (auto simp: put_map_def palette_pixel_def sizeof_bmp_map_def split: if_splits)

text \<open>The inner loop of depth 1, from bit \<open>i\<close> on: it stores one pixel per bit, most
  significant first, until the byte or the row ends.\<close>

lemma depth1_loop_spec:
  assumes "depth1_loop w bmp mp cur i x out buf = Inr (x', out', buf')"
  shows "x' = x + min (8 - i) (w - x) \<and> out' = out + min (8 - i) (w - x) \<and>
     length buf' = length buf \<and>
     (\<forall>k < min (8 - i) (w - x). buf' ! (out + k) =
        palette_pixel bmp mp (unat (drop_bit (7 - (i + k)) (bmp ! cur) AND 1)) (buf ! (out + k))) \<and>
     (\<forall>j. j < out \<or> out + min (8 - i) (w - x) \<le> j \<longrightarrow> buf' ! j = buf ! j)"
  using assms
proof (induction w bmp mp cur i x out buf rule: depth1_loop.induct)
  case (1 w bmp mp cur i x out buf)
  show ?case
  proof (cases "i < 8 \<and> x < w")
    case False
    with "1.prems" have "x' = x" "out' = out" "buf' = buf"
      by (subst (asm) depth1_loop.simps; simp)+
    moreover from False have "min (8 - i) (w - x) = 0" by (auto simp: min_def)
    ultimately show ?thesis by simp
  next
    case True
    with "1.prems" obtain buf1 where
      b: "put_map bmp mp (unat (drop_bit (7 - i) (bmp ! cur) AND 1)) out buf = Inr buf1" and
      c: "cur < length bmp" and
      r: "depth1_loop w bmp mp cur (i + 1) (x + 1) (out + 1) buf1 = Inr (x', out', buf')"
      by (subst (asm) depth1_loop.simps) (auto split: if_splits sum.splits)
    from c have c': "\<not> \<not> cur < length bmp" by simp
    note IH = "1.IH" [OF True c' b r]
    let ?k = "min (8 - i) (w - x)"
    let ?k' = "min (8 - (i + 1)) (w - (x + 1))"
    from True have k: "?k = Suc ?k'" by (auto simp: min_def)
    note pm = put_map_Inr [OF b]
    from IH have 1: "x' = x + ?k" "out' = out + ?k" by (simp_all add: k)
    from IH pm have 2: "length buf' = length buf" by simp
    have 3: "buf' ! (out + n) =
        palette_pixel bmp mp (unat (drop_bit (7 - (i + n)) (bmp ! cur) AND 1)) (buf ! (out + n))"
      if n: "n < ?k" for n
    proof (cases n)
      case 0
      from IH have "buf' ! out = buf1 ! out" by simp
      with pm 0 show ?thesis by simp
    next
      case (Suc m)
      with n k have m: "m < ?k'" by simp
      with IH have "buf' ! (out + 1 + m) =
        palette_pixel bmp mp (unat (drop_bit (7 - (i + 1 + m)) (bmp ! cur) AND 1)) (buf1 ! (out + 1 + m))"
        by blast
      moreover have "buf1 ! (out + 1 + m) = buf ! (out + 1 + m)"
        using pm by simp
      ultimately show ?thesis using Suc by simp
    qed
    have 4: "buf' ! j = buf ! j" if j: "j < out \<or> out + ?k \<le> j" for j
    proof -
      from j k have "j < out + 1 \<or> out + 1 + ?k' \<le> j" by auto
      with IH have "buf' ! j = buf1 ! j" by blast
      moreover from j k have "j \<noteq> out" by auto
      with pm have "buf1 ! j = buf ! j" by simp
      ultimately show ?thesis by simp
    qed
    from 1 2 3 4 show ?thesis by blast
  qed
qed

lemma unat_pred_width: "0 < unat (w :: u32) \<Longrightarrow> unat (w - 1) = unat w - 1"
  by (metis unat_minus_one unat_0 less_numeral_extra(3))

text \<open>The source word of depth 32 by its bytes, and the blend of the code on the
  pixel structure as the channel formula of the specification.\<close>

lemma le32_bytes:
  "ucast (le32 bmp at) = bmp ! at"
  "ucast (drop_bit 8 (le32 bmp at)) = bmp ! (at + 1)"
  "ucast (drop_bit 16 (le32 bmp at)) = bmp ! (at + 2)"
  "ucast (drop_bit 24 (le32 bmp at)) = bmp ! (at + 3)"
  unfolding le32_def
  by (rule bit_word_eqI; auto simp: bit_simps dest: bit_imp_le_length)+

lemma blended_pixel_word:
  "word_pixel (pixel_blend (pixel_word old) (le32 bmp at)) = blended_pixel bmp at old"
proof -
  let ?q = "word_pixel (pixel_blend (pixel_word old) (le32 bmp at))"
  have d: "ucast (pixel_word old) = Blue old" "ucast (drop_bit 8 (pixel_word old)) = Green old"
    "ucast (drop_bit 16 (pixel_word old)) = Red old"
    using arg_cong [OF word_pixel_pixel_word [of old], of Blue]
      arg_cong [OF word_pixel_pixel_word [of old], of Green]
      arg_cong [OF word_pixel_pixel_word [of old], of Red]
    by (simp_all add: word_pixel_def)
  note c = pixel_blend_channels [of "pixel_word old" "le32 bmp at", unfolded d le32_bytes]
  have "Blue ?q = word_of_int (uint (Blue ?q))" "Green ?q = word_of_int (uint (Green ?q))"
    "Red ?q = word_of_int (uint (Red ?q))"
    by simp_all
  then have "Blue ?q = blend_channel (Blue old) (bmp ! (at + 1)) (bmp ! at)"
    "Green ?q = blend_channel (Green old) (bmp ! (at + 2)) (bmp ! at)"
    "Red ?q = blend_channel (Red old) (bmp ! (at + 3)) (bmp ! at)"
    unfolding c(1,2,3) blend_channel_def by simp_all
  moreover have "Reserved ?q = 0" by (rule c(4))
  ultimately show ?thesis
    unfolding blended_pixel_def by (cases ?q) simp
qed

text \<open>One pass through the switch, at any supported depth.\<close>

lemma bmp_pixel_spec:
  assumes run: "bmp_pixel dib bmp mp x cur out buf = Inr (x', cur', out', buf')"
    and x: "x < unat (dib_x dib)"
    and depth: "dib_depth dib \<in> {1, 4, 8, 16, 24, 32}"
  shows "x' + 1 = x + step_pixels dib (unat (dib_x dib) - x) \<and>
     out' + 1 = out + step_pixels dib (unat (dib_x dib) - x) \<and>
     cur' + 1 = cur + step_bytes dib \<and>
     length buf' = length buf \<and>
     (\<forall>n < step_pixels dib (unat (dib_x dib) - x).
        buf' ! (out + n) = src_pixel dib bmp mp cur n (buf ! (out + n))) \<and>
     (\<forall>j. j < out \<or> out + step_pixels dib (unat (dib_x dib) - x) \<le> j \<longrightarrow> buf' ! j = buf ! j)"
proof -
  let ?w = "unat (dib_x dib)"
  from depth consider (d1) "dib_depth dib = 1" | (d4) "dib_depth dib = 4"
    | (d8) "dib_depth dib = 8" | (d16) "dib_depth dib = 16" | (d24) "dib_depth dib = 24"
    | (d32) "dib_depth dib = 32"
    by auto
  then show ?thesis
  proof cases
    case d1
    with run obtain x1 out1 where
      l: "depth1_loop ?w bmp mp cur 0 x out buf = Inr (x1, out1, buf')"
      and r: "x' = x1 - 1" "cur' = cur" "out' = out1 - 1"
      by (auto simp: bmp_pixel_def split: sum.splits)
    let ?k = "min 8 (?w - x)"
    from x have k: "0 < ?k" "?k \<le> 8" by simp_all
    from depth1_loop_spec [OF l]
    have s: "x1 = x + ?k" "out1 = out + ?k" "length buf' = length buf"
      "\<And>n. n < ?k \<Longrightarrow> buf' ! (out + n) =
         palette_pixel bmp mp (unat (drop_bit (7 - n) (bmp ! cur) AND 1)) (buf ! (out + n))"
      by simp_all
    from depth1_loop_spec [OF l]
    have f: "\<And>j. j < out \<or> out + ?k \<le> j \<Longrightarrow> buf' ! j = buf ! j"
      unfolding diff_zero by blast
    have sp: "step_pixels dib (?w - x) = ?k" "step_bytes dib = 1"
      using d1 by (simp_all add: step_pixels_def step_bytes_def)
    have px: "src_pixel dib bmp mp cur n old =
        palette_pixel bmp mp (unat (drop_bit (7 - n) (bmp ! cur) AND 1)) old" if "n < ?k" for n old
      using that k d1 by (simp add: src_pixel_def)
    show ?thesis
      unfolding sp using s f k r by (simp add: px)
  next
    case d4
    from run d4 obtain buf1 where
      c: "cur < length bmp" and
      p1: "put_map bmp mp (unat (drop_bit 4 (bmp ! cur))) out buf = Inr buf1"
      by (auto simp: bmp_pixel_def split: sum.splits if_splits)
    note b1 = put_map_Inr [OF p1]
    have sb: "step_bytes dib = 1" using d4 by (simp add: step_bytes_def)
    have px0: "src_pixel dib bmp mp cur 0 old =
        palette_pixel bmp mp (unat (drop_bit 4 (bmp ! cur))) old" for old
      using d4 by (simp add: src_pixel_def)
    have px1: "src_pixel dib bmp mp cur (Suc 0) old =
        palette_pixel bmp mp (unat (bmp ! cur AND 0x0f)) old" for old
      using d4 by (simp add: src_pixel_def)
    from x have w1: "unat (dib_x dib - 1) = ?w - 1" by (intro unat_pred_width) simp
    show ?thesis
    proof (cases "x < ?w - 1")
      case True
      with run d4 c p1 w1 obtain
        p2: "put_map bmp mp (unat (bmp ! cur AND 0x0f)) (out + 1) buf1 = Inr buf'"
        and r: "x' = x + 1" "cur' = cur" "out' = out + 1"
        by (auto simp: bmp_pixel_def split: sum.splits if_splits)
      note b2 = put_map_Inr [OF p2]
      from True have "2 \<le> ?w - x" by linarith
      then have sp: "step_pixels dib (?w - x) = 2"
        using d4 by (simp add: step_pixels_def)
      have n2: "n < 2 \<longleftrightarrow> n = 0 \<or> n = 1" for n :: nat by auto
      show ?thesis
        unfolding sp sb using r b1 b2
        by (auto simp: n2 px0 px1 nth_list_update)
    next
      case False
      with run d4 c p1 w1 have r: "x' = x" "cur' = cur" "out' = out" "buf' = buf1"
        by (auto simp: bmp_pixel_def split: sum.splits if_splits)
      from False x have "?w - x = 1" by linarith
      then have sp: "step_pixels dib (?w - x) = 1"
        using d4 by (simp add: step_pixels_def)
      show ?thesis
        unfolding sp sb using r b1
        by (auto simp: px0 nth_list_update)
    qed
  next
    case d8
    from run d8 obtain
      c: "cur < length bmp" and
      p1: "put_map bmp mp (unat (bmp ! cur)) out buf = Inr buf'"
      and r: "x' = x" "cur' = cur" "out' = out"
      by (auto simp: bmp_pixel_def split: sum.splits if_splits)
    note b1 = put_map_Inr [OF p1]
    have sp: "step_pixels dib (?w - x) = 1" "step_bytes dib = 1"
      using d8 by (simp_all add: step_pixels_def step_bytes_def)
    have px0: "src_pixel dib bmp mp cur 0 old = palette_pixel bmp mp (unat (bmp ! cur)) old" for old
      using d8 by (simp add: src_pixel_def)
    show ?thesis
      unfolding sp using r b1 by (auto simp: px0 nth_list_update)
  next
    case d16
    have sp: "step_pixels dib (?w - x) = 1" "step_bytes dib = 2"
      using d16 by (simp_all add: step_pixels_def step_bytes_def)
    from run d16 show ?thesis
      unfolding sp
      by (auto simp: bmp_pixel_def src_pixel_def Let_def nth_list_update split: if_splits)
  next
    case d24
    have sp: "step_pixels dib (?w - x) = 1" "step_bytes dib = 3"
      using d24 by (simp_all add: step_pixels_def step_bytes_def)
    from run d24 show ?thesis
      unfolding sp
      by (auto simp: bmp_pixel_def src_pixel_def Let_def nth_list_update split: if_splits)
  next
    case d32
    have sp: "step_pixels dib (?w - x) = 1" "step_bytes dib = 4"
      using d32 by (simp_all add: step_pixels_def step_bytes_def)
    from run d32 show ?thesis
      unfolding sp
      by (auto simp: bmp_pixel_def src_pixel_def Let_def nth_list_update blended_pixel_word
          split: if_splits)
  qed
qed

text \<open>Byte counts: a pass consumes its share of the row's bytes, also at the end of a
  row whose width is not a multiple of 8 (depth 1) or 2 (depth 4); and the bytes of a
  row, rounded up to a multiple of four, are the stride.\<close>

lemma bytes_step_depth1: "0 < n \<Longrightarrow> (n + 7) div 8 = 1 + (n - min 8 n + 7) div 8" for n :: nat
proof (cases "8 \<le> n")
  case True
  then obtain m where "n = m + 8" by (metis le_add_diff_inverse2)
  then show ?thesis by simp
next
  case False
  moreover assume "0 < n"
  ultimately have "n + 7 = 8 + (n - 1)" "n - 1 < 8" by simp_all
  then have "(n + 7) div 8 = 1" by (simp only: div_add_self1)
  with False show ?thesis by (simp add: min_def)
qed

lemma bytes_step_depth4: "0 < n \<Longrightarrow> (4 * n + 7) div 8 = 1 + (4 * (n - min 2 n) + 7) div 8" for n :: nat
proof (cases "2 \<le> n")
  case True
  then obtain m where "n = m + 2" by (metis le_add_diff_inverse2)
  then show ?thesis by simp
next
  case False
  moreover assume "0 < n"
  ultimately have "n = 1" by simp
  then show ?thesis by simp
qed

lemma stride_round: "((m + 7) div 8 + 3) div 4 * 4 = (m + 31) div 32 * 4" for m :: nat
proof -
  have "((m + 7) div 8 + 3) div 4 = (m + 7 + 24) div 8 div 4"
    by (simp add: div_add_self1)
  also have "\<dots> = (m + 31) div 32" by (simp add: div_mult2_eq [symmetric])
  finally show ?thesis by simp
qed

lemma step_pixels_le: "0 < n \<Longrightarrow> 0 < step_pixels dib n \<and> step_pixels dib n \<le> n"
  by (simp add: step_pixels_def)

lemma bytes_for_step:
  assumes "dib_depth dib \<in> {1, 4, 8, 16, 24, 32}" and "0 < n"
  shows "bytes_for dib n = step_bytes dib + bytes_for dib (n - step_pixels dib n)"
proof -
  from assms(1) consider (d1) "dib_depth dib = 1" | (d4) "dib_depth dib = 4"
    | (d8) "dib_depth dib = 8" | (d16) "dib_depth dib = 16" | (d24) "dib_depth dib = 24"
    | (d32) "dib_depth dib = 32"
    by auto
  then show ?thesis
  proof cases
    case d1
    then have "bytes_for dib m = (m + 7) div 8" for m by (simp add: bytes_for_def)
    with d1 bytes_step_depth1 [OF assms(2)] show ?thesis
      by (simp add: step_bytes_def step_pixels_def)
  next
    case d4
    then have "bytes_for dib m = (4 * m + 7) div 8" for m by (simp add: bytes_for_def)
    with d4 bytes_step_depth4 [OF assms(2)] show ?thesis
      by (simp add: step_bytes_def step_pixels_def)
  next
    case d8
    then have "bytes_for dib m = m" for m by (simp add: bytes_for_def)
    with d8 assms(2) show ?thesis
      by (simp add: step_bytes_def step_pixels_def)
  next
    case d16
    then have "bytes_for dib m = 2 * m" for m by (simp add: bytes_for_def)
    moreover from d16 have "step_bytes dib = 2" "step_pixels dib n = 1"
      by (simp_all add: step_bytes_def step_pixels_def)
    ultimately show ?thesis
      using assms(2) by (simp add: algebra_simps)
  next
    case d24
    then have "bytes_for dib m = 3 * m" for m by (simp add: bytes_for_def)
    moreover from d24 have "step_bytes dib = 3" "step_pixels dib n = 1"
      by (simp_all add: step_bytes_def step_pixels_def)
    ultimately show ?thesis
      using assms(2) by (simp add: algebra_simps)
  next
    case d32
    then have "bytes_for dib m = 4 * m" for m by (simp add: bytes_for_def)
    moreover from d32 have "step_bytes dib = 4" "step_pixels dib n = 1"
      by (simp_all add: step_bytes_def step_pixels_def)
    ultimately show ?thesis
      using assms(2) by (simp add: algebra_simps)
  qed
qed

lemma src_pixel_depth:
  "dib_depth dib = 1 \<Longrightarrow> src_pixel dib bmp mp row x old =
     palette_pixel bmp mp (unat (drop_bit (7 - x mod 8) (bmp ! (row + x div 8)) AND 1)) old"
  "dib_depth dib = 4 \<Longrightarrow> src_pixel dib bmp mp row x old =
     palette_pixel bmp mp
       (if even x then unat (drop_bit 4 (bmp ! (row + x div 2)))
        else unat (bmp ! (row + x div 2) AND 0x0f)) old"
  "dib_depth dib = 8 \<Longrightarrow> src_pixel dib bmp mp row x old =
     palette_pixel bmp mp (unat (bmp ! (row + x))) old"
  "dib_depth dib = 16 \<Longrightarrow> src_pixel dib bmp mp row x old =
     old \<lparr> Blue := ucast (push_bit 3 (le16 bmp (row + 2 * x) AND 0x1f)),
           Green := ucast (drop_bit 2 (le16 bmp (row + 2 * x) AND 0x3e0)),
           Red := ucast (drop_bit 7 (le16 bmp (row + 2 * x) AND 0x7c00)) \<rparr>"
  "dib_depth dib = 24 \<Longrightarrow> src_pixel dib bmp mp row x old =
     old \<lparr> Blue := bmp ! (row + 3 * x), Green := bmp ! (row + 3 * x + 1),
           Red := bmp ! (row + 3 * x + 2) \<rparr>"
  "dib_depth dib = 32 \<Longrightarrow> src_pixel dib bmp mp row x old =
     blended_pixel bmp (row + 4 * x) old"
  by (simp_all add: src_pixel_def)

lemma src_pixel_shift:
  assumes "dib_depth dib \<in> {1, 4, 8, 16, 24, 32}"
    and "step_pixels dib n < n" and "step_pixels dib n \<le> X"
  shows "src_pixel dib bmp mp cur X old =
         src_pixel dib bmp mp (cur + step_bytes dib) (X - step_pixels dib n) old"
proof -
  from assms(1) consider (d1) "dib_depth dib = 1" | (d4) "dib_depth dib = 4"
    | (d8) "dib_depth dib = 8" | (d16) "dib_depth dib = 16" | (d24) "dib_depth dib = 24"
    | (d32) "dib_depth dib = 32"
    by auto
  then show ?thesis
  proof cases
    case d1
    with assms(2) have k: "step_pixels dib n = 8" "step_bytes dib = 1"
      by (simp_all add: step_pixels_def step_bytes_def min_def split: if_splits)
    with assms(3) obtain m where X: "X = m + 8" by (metis le_add_diff_inverse2)
    have "(m + 8) div 8 = m div 8 + 1" "(m + 8) mod 8 = m mod 8" by simp_all
    then show ?thesis
      unfolding src_pixel_depth(1) [OF d1] k X by (simp add: add.assoc)
  next
    case d4
    with assms(2) have k: "step_pixels dib n = 2" "step_bytes dib = 1"
      by (simp_all add: step_pixels_def step_bytes_def min_def split: if_splits)
    with assms(3) obtain m where X: "X = m + 2" by (metis le_add_diff_inverse2)
    have "(m + 2) div 2 = m div 2 + 1" by simp
    then show ?thesis
      unfolding src_pixel_depth(2) [OF d4] k X by (simp add: add.assoc)
  next
    case d8
    then have k: "step_pixels dib n = 1" "step_bytes dib = 1"
      by (simp_all add: step_pixels_def step_bytes_def)
    with assms(3) obtain m where X: "X = m + 1" by (metis le_add_diff_inverse2)
    show ?thesis
      unfolding src_pixel_depth(3) [OF d8] k X by simp
  next
    case d16
    then have k: "step_pixels dib n = 1" "step_bytes dib = 2"
      by (simp_all add: step_pixels_def step_bytes_def)
    with assms(3) obtain m where X: "X = m + 1" by (metis le_add_diff_inverse2)
    have "cur + 2 * (m + 1) = cur + 2 + 2 * m" by simp
    then show ?thesis
      unfolding src_pixel_depth(4) [OF d16] k X by (simp only: add_diff_cancel_right')
  next
    case d24
    then have k: "step_pixels dib n = 1" "step_bytes dib = 3"
      by (simp_all add: step_pixels_def step_bytes_def)
    with assms(3) obtain m where X: "X = m + 1" by (metis le_add_diff_inverse2)
    have "cur + 3 * (m + 1) = cur + 3 + 3 * m" by simp
    then show ?thesis
      unfolding src_pixel_depth(5) [OF d24] k X by (simp only: add_diff_cancel_right')
  next
    case d32
    then have k: "step_pixels dib n = 1" "step_bytes dib = 4"
      by (simp_all add: step_pixels_def step_bytes_def)
    with assms(3) obtain m where X: "X = m + 1" by (metis le_add_diff_inverse2)
    have "cur + 4 * (m + 1) = cur + 4 + 4 * m" by simp
    then show ?thesis
      unfolding src_pixel_depth(6) [OF d32] k X by (simp only: add_diff_cancel_right')
  qed
qed

text \<open>The row loop from column \<open>x\<close> on: the cursor moves by the bytes of the pixels
  left, the pixels from \<open>out\<close> on are the decoded pixels of the row, and nothing else in
  the buffer changes.\<close>

lemma bmp_row_spec:
  assumes "bmp_row dib bmp mp x cur out buf = Inr (cur', buf')"
    and "x \<le> unat (dib_x dib)"
    and "dib_depth dib \<in> {1, 4, 8, 16, 24, 32}"
  shows "cur' = cur + bytes_for dib (unat (dib_x dib) - x) \<and>
     length buf' = length buf \<and>
     (\<forall>n < unat (dib_x dib) - x.
        buf' ! (out + n) = src_pixel dib bmp mp cur n (buf ! (out + n))) \<and>
     (\<forall>j. j < out \<or> out + (unat (dib_x dib) - x) \<le> j \<longrightarrow> buf' ! j = buf ! j)"
  using assms
proof (induction dib bmp mp x cur out buf rule: bmp_row.induct)
  case (1 dib bmp mp x cur out buf)
  let ?w = "unat (dib_x dib)"
  show ?case
  proof (cases "x < ?w")
    case False
    with "1.prems" have "cur' = cur" "buf' = buf" "?w - x = 0"
      by (subst (asm) bmp_row.simps; simp)+
    then show ?thesis by (simp add: bytes_for_def)
  next
    case True
    let ?n = "?w - x"
    let ?k = "step_pixels dib ?n"
    let ?b = "step_bytes dib"
    from True "1.prems"(1) obtain x1 cur1 out1 buf1 where
      p: "bmp_pixel dib bmp mp x cur out buf = Inr (x1, cur1, out1, buf1)" and
      r: "bmp_row dib bmp mp (x1 + 1) (cur1 + 1) (out1 + 1) buf1 = Inr (cur', buf')"
      by (subst (asm) bmp_row.simps) (auto split: sum.splits)
    note S = bmp_pixel_spec [OF p True "1.prems"(3)]
    from S have s: "x1 + 1 = x + ?k" "out1 + 1 = out + ?k" "cur1 + 1 = cur + ?b"
      "length buf1 = length buf"
      by simp_all
    from S have sp': "\<forall>n < ?k. buf1 ! (out + n) = src_pixel dib bmp mp cur n (buf ! (out + n))"
      by (elim conjE)
    from S have sf': "\<forall>j. j < out \<or> out + ?k \<le> j \<longrightarrow> buf1 ! j = buf ! j"
      by (elim conjE)
    note sp = sp' [rule_format] and sf = sf' [rule_format]
    from True have n: "0 < ?n" by simp
    from step_pixels_le [OF n, of dib] have k: "0 < ?k" "?k \<le> ?n" by simp_all
    with s have x1: "x1 + 1 \<le> ?w" "?w - (x1 + 1) = ?n - ?k" by simp_all
    note I = "1.IH" [OF True p refl refl refl r x1(1) "1.prems"(3), unfolded x1(2)]
    from I have i: "cur' = cur1 + 1 + bytes_for dib (?n - ?k)" "length buf' = length buf1"
      by simp_all
    from I have ip': "\<forall>m < ?n - ?k.
          buf' ! (out1 + 1 + m) = src_pixel dib bmp mp (cur1 + 1) m (buf1 ! (out1 + 1 + m))"
      by (elim conjE)
    from I have if': "\<forall>j. j < out1 + 1 \<or> out1 + 1 + (?n - ?k) \<le> j \<longrightarrow> buf' ! j = buf1 ! j"
      by (elim conjE)
    note ip = ip' [rule_format] and "if" = if' [rule_format]
    have 1: "cur' = cur + bytes_for dib ?n"
      using i(1) s(3) bytes_for_step [OF "1.prems"(3) n] by linarith
    have 2: "length buf' = length buf" using i(2) s(4) by simp
    have 3: "buf' ! (out + m) = src_pixel dib bmp mp cur m (buf ! (out + m))" if m: "m < ?n" for m
    proof (cases "m < ?k")
      case True
      then have "out + m < out1 + 1" using s(2) by linarith
      then have "buf' ! (out + m) = buf1 ! (out + m)"
        by (intro "if") simp
      with sp [OF True] show ?thesis by simp
    next
      case False
      then have km: "?k \<le> m" by simp
      with m have kn: "?k < ?n" by simp
      from km m have "m - ?k < ?n - ?k" by simp
      from ip [OF this] have "buf' ! (out1 + 1 + (m - ?k)) =
          src_pixel dib bmp mp (cur1 + 1) (m - ?k) (buf1 ! (out1 + 1 + (m - ?k)))" .
      moreover have "out1 + 1 + (m - ?k) = out + m" using s(2) km by linarith
      ultimately have "buf' ! (out + m) =
          src_pixel dib bmp mp (cur + ?b) (m - ?k) (buf1 ! (out + m))"
        unfolding s(3) by simp
      also have "buf1 ! (out + m) = buf ! (out + m)"
        using sf [of "out + m"] km by simp
      also have "src_pixel dib bmp mp (cur + ?b) (m - ?k) (buf ! (out + m)) =
          src_pixel dib bmp mp cur m (buf ! (out + m))"
        by (rule src_pixel_shift [OF "1.prems"(3) kn km, symmetric])
      finally show ?thesis .
    qed
    have 4: "buf' ! j = buf ! j" if j: "j < out \<or> out + ?n \<le> j" for j
    proof -
      from j k s(2) have "j < out1 + 1 \<or> out1 + 1 + (?n - ?k) \<le> j" by linarith
      from "if" [OF this] have "buf' ! j = buf1 ! j" .
      moreover from j k have "j < out \<or> out + ?k \<le> j" by linarith
      from sf [OF this] have "buf1 ! j = buf ! j" .
      ultimately show ?thesis by simp
    qed
    from 1 2 3 4 show ?thesis by blast
  qed
qed

lemma row_stride_bytes: "(bytes_for dib (unat (dib_x dib)) + 3) div 4 * 4 = row_stride dib"
  unfolding bytes_for_def row_stride_def by (rule stride_round)

lemma row_padding_stride:
  assumes "cur = pixmap + y * row_stride dib"
  shows "row_padding pixmap (cur + bytes_for dib (unat (dib_x dib))) = pixmap + (y + 1) * row_stride dib"
proof -
  let ?B = "bytes_for dib (unat (dib_x dib))"
  let ?S = "row_stride dib"
  obtain q where S: "?S = q * 4" by (simp add: row_stride_def)
  have BS: "(?B + 3) div 4 * 4 = ?S" by (rule row_stride_bytes)
  have "?B \<le> (?B + 3) div 4 * 4" by presburger
  then have B: "?B \<le> ?S" unfolding BS .
  have r: "cur + ?B - pixmap = y * q * 4 + ?B" using assms S by simp
  have "(y * q * 4 + ?B + 3) div 4 * 4 = y * q * 4 + (?B + 3) div 4 * 4"
    by (simp add: add.assoc)
  then have "(cur + ?B - pixmap + 3) div 4 * 4 = y * ?S + ?S"
    unfolding r BS using S by simp
  then show ?thesis
    unfolding row_padding_def Let_def using assms B r S by simp
qed

lemma row_index:
  assumes "r < h"
  shows "(h - 1 - r) * w + w = (h - r) * (w :: nat)"
proof -
  from assms obtain k where k: "h - r = Suc k" by (metis Suc_diff_Suc)
  then have "h - 1 - r = k" by linarith
  with k show ?thesis by simp
qed

text \<open>The loop over the rows from row \<open>y\<close> on, entered with the cursor at
  \<open>pixmap + y * stride\<close>.\<close>

lemma bmp_rows_spec:
  assumes "bmp_rows dib bmp mp pixmap y cur buf = Inr (cur', buf')"
    and "y \<le> unat (dib_y dib)"
    and "cur = pixmap + y * row_stride dib"
    and "dib_depth dib \<in> {1, 4, 8, 16, 24, 32}"
  shows "cur' = pixmap + unat (dib_y dib) * row_stride dib \<and>
     length buf' = length buf \<and>
     (\<forall>r. y \<le> r \<and> r < unat (dib_y dib) \<longrightarrow>
        (\<forall>n < unat (dib_x dib).
           buf' ! ((unat (dib_y dib) - 1 - r) * unat (dib_x dib) + n) =
           src_pixel dib bmp mp (pixmap + r * row_stride dib) n
             (buf ! ((unat (dib_y dib) - 1 - r) * unat (dib_x dib) + n)))) \<and>
     (\<forall>j. (unat (dib_y dib) - y) * unat (dib_x dib) \<le> j \<longrightarrow> buf' ! j = buf ! j)"
  using assms
proof (induction dib bmp mp pixmap y cur buf rule: bmp_rows.induct)
  case (1 dib bmp mp pixmap y cur buf)
  let ?h = "unat (dib_y dib)"
  let ?w = "unat (dib_x dib)"
  let ?S = "row_stride dib"
  show ?case
  proof (cases "y < ?h")
    case False
    with "1.prems"(1) have e: "cur' = cur" "buf' = buf"
      by (subst (asm) bmp_rows.simps; simp)+
    from False "1.prems"(2) have "y = ?h" by simp
    with e "1.prems"(3) show ?thesis by auto
  next
    case True
    let ?out = "(?h - y - 1) * ?w"
    from True "1.prems"(1) obtain cur1 buf1 where
      row: "bmp_row dib bmp mp 0 cur ?out buf = Inr (cur1, buf1)" and
      rest: "bmp_rows dib bmp mp pixmap (y + 1) (row_padding pixmap cur1) buf1 = Inr (cur', buf')"
      by (subst (asm) bmp_rows.simps) (auto split: sum.splits)
    note R = bmp_row_spec [OF row le0 "1.prems"(4), unfolded diff_zero]
    from R have c1: "cur1 = cur + bytes_for dib ?w" and l1: "length buf1 = length buf"
      by simp_all
    from R have rp': "\<forall>n < ?w. buf1 ! (?out + n) = src_pixel dib bmp mp cur n (buf ! (?out + n))"
      by (elim conjE)
    from R have rf': "\<forall>j. j < ?out \<or> ?out + ?w \<le> j \<longrightarrow> buf1 ! j = buf ! j"
      by (elim conjE)
    note rp = rp' [rule_format] and rf = rf' [rule_format]
    have pad: "row_padding pixmap cur1 = pixmap + (y + 1) * ?S"
      unfolding c1 by (rule row_padding_stride [OF "1.prems"(3)])
    from True have y1: "y + 1 \<le> ?h" by simp
    note I = "1.IH" [OF True row refl rest y1 pad "1.prems"(4)]
    from I have i: "cur' = pixmap + ?h * ?S" "length buf' = length buf1"
      by simp_all
    from I have ip': "\<forall>r. y + 1 \<le> r \<and> r < ?h \<longrightarrow>
        (\<forall>n < ?w. buf' ! ((?h - 1 - r) * ?w + n) =
           src_pixel dib bmp mp (pixmap + r * ?S) n (buf1 ! ((?h - 1 - r) * ?w + n)))"
      by (elim conjE)
    from I have if': "\<forall>j. (?h - (y + 1)) * ?w \<le> j \<longrightarrow> buf' ! j = buf1 ! j"
      by (elim conjE)
    note ip = ip' [rule_format] and "if" = if' [rule_format]
    have o: "?out + ?w = (?h - y) * ?w" "?out = (?h - (y + 1)) * ?w"
      using row_index [OF True, of ?w] by (simp_all add: diff_commute)
    have 3: "buf' ! ((?h - 1 - r) * ?w + n) =
           src_pixel dib bmp mp (pixmap + r * ?S) n (buf ! ((?h - 1 - r) * ?w + n))"
      if r: "y \<le> r" "r < ?h" and n: "n < ?w" for r n
    proof (cases "r = y")
      case True
      have "buf' ! (?out + n) = buf1 ! (?out + n)"
        by (rule "if") (simp add: o(2))
      also have "\<dots> = src_pixel dib bmp mp cur n (buf ! (?out + n))"
        by (rule rp [OF n])
      finally show ?thesis
        using True "1.prems"(3) by (simp add: diff_commute)
    next
      case False
      with r have r1: "y + 1 \<le> r" by simp
      have "(?h - 1 - r) * ?w + n < (?h - 1 - r) * ?w + ?w" using n by simp
      also have "\<dots> = (?h - r) * ?w" by (rule row_index [OF r(2)])
      also have "\<dots> \<le> ?out"
        unfolding o(2) using r1 by (intro mult_le_mono1) simp
      finally have lt: "(?h - 1 - r) * ?w + n < ?out" .
      have "buf' ! ((?h - 1 - r) * ?w + n) =
           src_pixel dib bmp mp (pixmap + r * ?S) n (buf1 ! ((?h - 1 - r) * ?w + n))"
        using ip r1 r(2) n by blast
      moreover have "buf1 ! ((?h - 1 - r) * ?w + n) = buf ! ((?h - 1 - r) * ?w + n)"
        using rf lt by blast
      ultimately show ?thesis by simp
    qed
    have 4: "buf' ! j = buf ! j" if j: "(?h - y) * ?w \<le> j" for j
    proof -
      from j o have "?out + ?w \<le> j" by simp
      then have "buf1 ! j = buf ! j" using rf by blast
      moreover from \<open>?out + ?w \<le> j\<close> have "(?h - (y + 1)) * ?w \<le> j" unfolding o(2) by simp
      then have "buf' ! j = buf1 ! j" using "if" by blast
      ultimately show ?thesis by simp
    qed
    from i l1 3 4 show ?thesis by (simp only:) blast
  qed
qed

lemma row_bytes_for: "row_bytes dib = bytes_for dib (unat (dib_x dib))"
  by (simp add: row_bytes_def bytes_for_def)

text \<open>A run that returns passes through every row \<open>y\<close> with its cursor at
  \<open>pixmap + y * stride\<close>.\<close>

lemma bmp_rows_reach:
  assumes run: "bmp_rows dib bmp mp pixmap 0 pixmap buf = Inr res"
    and depth: "dib_depth dib \<in> {1, 4, 8, 16, 24, 32}"
    and y: "y \<le> unat (dib_y dib)"
  shows "\<exists>b. bmp_rows dib bmp mp pixmap y (pixmap + y * row_stride dib) b = Inr res"
  using y
proof (induction y)
  case 0
  from run show ?case by auto
next
  case (Suc y)
  then obtain b where b: "bmp_rows dib bmp mp pixmap y (pixmap + y * row_stride dib) b = Inr res"
    by auto
  from Suc.prems have lt: "y < unat (dib_y dib)" by simp
  from b lt obtain cur1 buf1 where
    row: "bmp_row dib bmp mp 0 (pixmap + y * row_stride dib)
            ((unat (dib_y dib) - y - 1) * unat (dib_x dib)) b = Inr (cur1, buf1)" and
    rest: "bmp_rows dib bmp mp pixmap (y + 1) (row_padding pixmap cur1) buf1 = Inr res"
    by (subst (asm) bmp_rows.simps) (auto split: sum.splits)
  from bmp_row_spec [OF row le0 depth, unfolded diff_zero]
  have "cur1 = pixmap + y * row_stride dib + bytes_for dib (unat (dib_x dib))" by simp
  then have "row_padding pixmap cur1 = pixmap + (y + 1) * row_stride dib"
    by (simp only: row_padding_stride [OF refl])
  with rest show ?case by auto
qed

subsection \<open>Runs that return\<close>

text \<open>A palette store returns when the entry and the output pixel exist; the indices
  the converter forms are below \<open>2 ^ depth\<close>.\<close>

lemma put_map_returns:
  assumes "mp + 4 * i + 2 < length bmp" and "out < length buf"
  shows "put_map bmp mp i out buf = Inr (buf[out := palette_pixel bmp mp i (buf ! out)])"
  using assms by (simp add: put_map_def palette_pixel_def sizeof_bmp_map_def)

lemma index_bounds:
  "unat (drop_bit n (b :: u8) AND 1) < 2"
  "unat (drop_bit 4 (b :: u8)) < 16"
  "unat ((b :: u8) AND 0x0f) < 16"
  "unat (b :: u8) < 256"
proof -
  have "drop_bit n b AND 1 \<le> 1" by (rule word_and_le1)
  then show "unat (drop_bit n b AND 1) < 2" by (simp add: word_le_nat_alt)
  have "unat (drop_bit 4 b) = unat b div 16" by (simp add: drop_bit_eq_div unat_div)
  moreover have b: "unat b < 256" using unsigned_less [of b, where ?'a = nat] by simp
  ultimately show "unat (drop_bit 4 b) < 16" by simp
  have "b AND 0x0f \<le> 0x0f" by (rule word_and_le1)
  then show "unat (b AND 0x0f) < 16" by (simp add: word_le_nat_alt)
  from b show "unat b < 256" .
qed

lemma depth1_loop_returns:
  assumes "i < 8 \<and> x < w \<longrightarrow> cur < length bmp"
    and "out + min (8 - i) (w - x) \<le> length buf"
    and "mp + 8 \<le> length bmp"
  shows "\<exists>r. depth1_loop w bmp mp cur i x out buf = Inr r"
  using assms
proof (induction w bmp mp cur i x out buf rule: depth1_loop.induct)
  case (1 w bmp mp cur i x out buf)
  show ?case
  proof (cases "i < 8 \<and> x < w")
    case False
    then show ?thesis by (subst depth1_loop.simps) (simp only: if_False, simp)
  next
    case True
    let ?i = "unat (drop_bit (7 - i) (bmp ! cur) AND 1)"
    let ?buf1 = "buf[out := palette_pixel bmp mp ?i (buf ! out)]"
    from True "1.prems"(1) have c: "cur < length bmp" by simp
    from True "1.prems"(2) have o: "out < length buf" by (auto simp: min_def split: if_splits)
    from index_bounds(1) [of "7 - i" "bmp ! cur"] "1.prems"(3)
    have "mp + 4 * ?i + 2 < length bmp" by simp
    from put_map_returns [OF this o]
    have p: "put_map bmp mp ?i out buf = Inr ?buf1" .
    from c have c': "\<not> \<not> cur < length bmp" by simp
    have "\<exists>r. depth1_loop w bmp mp cur (i + 1) (x + 1) (out + 1) ?buf1 = Inr r"
    proof (rule "1.IH" [OF True c' p])
      show "i + 1 < 8 \<and> x + 1 < w \<longrightarrow> cur < length bmp" using c by simp
      from True have "min (8 - i) (w - x) = Suc (min (8 - (i + 1)) (w - (x + 1)))"
        by (auto simp: min_def)
      with "1.prems"(2) show "out + 1 + min (8 - (i + 1)) (w - (x + 1)) \<le> length ?buf1"
        by simp
      show "mp + 8 \<le> length bmp" by (rule "1.prems"(3))
    qed
    then show ?thesis
      by (subst depth1_loop.simps) (simp only: True c' p if_True if_False sum.case simp_thms)
  qed
qed


lemma bmp_pixel_returns:
  assumes x: "x < unat (dib_x dib)"
    and depth: "dib_depth dib \<in> {1, 4, 8, 16, 24, 32}"
    and c: "cur + step_bytes dib \<le> length bmp"
    and o: "out + step_pixels dib (unat (dib_x dib) - x) \<le> length buf"
    and pal: "palette_inside dib bmp mp"
  shows "\<exists>r. bmp_pixel dib bmp mp x cur out buf = Inr r"
proof -
  let ?w = "unat (dib_x dib)"
  from depth consider (d1) "dib_depth dib = 1" | (d4) "dib_depth dib = 4"
    | (d8) "dib_depth dib = 8" | (d16) "dib_depth dib = 16" | (d24) "dib_depth dib = 24"
    | (d32) "dib_depth dib = 32"
    by auto
  then show ?thesis
  proof cases
    case d1
    from d1 c have c1: "cur < length bmp" by (simp add: step_bytes_def)
    from d1 o have o1: "out + min (8 - 0) (?w - x) \<le> length buf" by (simp add: step_pixels_def)
    from d1 pal have m: "mp + 8 \<le> length bmp" by (simp add: palette_inside_def)
    from c1 have "0 < 8 \<and> x < ?w \<longrightarrow> cur < length bmp" by simp
    from depth1_loop_returns [OF this o1 m] obtain r where
      "depth1_loop ?w bmp mp cur 0 x out buf = Inr r" ..
    with d1 show ?thesis by (simp add: bmp_pixel_def split: prod.splits)
  next
    case d4
    from d4 c have c1: "cur < length bmp" by (simp add: step_bytes_def)
    from d4 pal have m: "mp + 64 \<le> length bmp" by (simp add: palette_inside_def)
    from x o have o1: "out < length buf" using step_pixels_le [of "?w - x" dib] by simp
    let ?buf1 = "buf[out := palette_pixel bmp mp (unat (drop_bit 4 (bmp ! cur))) (buf ! out)]"
    from index_bounds(2) [of "bmp ! cur"] m
    have "mp + 4 * unat (drop_bit 4 (bmp ! cur)) + 2 < length bmp" by simp
    from put_map_returns [OF this o1]
    have p1: "put_map bmp mp (unat (drop_bit 4 (bmp ! cur))) out buf = Inr ?buf1" .
    from x have w1: "unat (dib_x dib - 1) = ?w - 1" by (intro unat_pred_width) simp
    show ?thesis
    proof (cases "x < ?w - 1")
      case True
      then have "2 \<le> ?w - x" by linarith
      with d4 o have o2: "out + 1 < length ?buf1" by (simp add: step_pixels_def)
      from index_bounds(3) [of "bmp ! cur"] m
      have "mp + 4 * unat (bmp ! cur AND 0x0f) + 2 < length bmp" by simp
      from put_map_returns [OF this o2] d4 c1 p1 w1 True show ?thesis
        by (simp add: bmp_pixel_def)
    next
      case False
      with d4 c1 p1 w1 show ?thesis by (simp add: bmp_pixel_def)
    qed
  next
    case d8
    from d8 c have c1: "cur < length bmp" by (simp add: step_bytes_def)
    from d8 pal have m: "mp + 1024 \<le> length bmp" by (simp add: palette_inside_def)
    from x o have o1: "out < length buf" using step_pixels_le [of "?w - x" dib] by simp
    from index_bounds(4) [of "bmp ! cur"] m
    have "mp + 4 * unat (bmp ! cur) + 2 < length bmp" by simp
    from put_map_returns [OF this o1] d8 c1 show ?thesis
      by (simp add: bmp_pixel_def)
  next
    case d16
    from x o have o1: "out < length buf" using step_pixels_le [of "?w - x" dib] by simp
    from d16 c o1 show ?thesis by (simp add: bmp_pixel_def step_bytes_def Let_def)
  next
    case d24
    from x o have o1: "out < length buf" using step_pixels_le [of "?w - x" dib] by simp
    from d24 c o1 show ?thesis by (simp add: bmp_pixel_def step_bytes_def Let_def)
  next
    case d32
    from x o have o1: "out < length buf" using step_pixels_le [of "?w - x" dib] by simp
    from d32 c o1 show ?thesis by (simp add: bmp_pixel_def step_bytes_def Let_def)
  qed
qed

lemma bmp_row_returns:
  assumes "x \<le> unat (dib_x dib)"
    and "dib_depth dib \<in> {1, 4, 8, 16, 24, 32}"
    and "cur + bytes_for dib (unat (dib_x dib) - x) \<le> length bmp"
    and "out + (unat (dib_x dib) - x) \<le> length buf"
    and "palette_inside dib bmp mp"
  shows "\<exists>r. bmp_row dib bmp mp x cur out buf = Inr r"
  using assms
proof (induction dib bmp mp x cur out buf rule: bmp_row.induct)
  case (1 dib bmp mp x cur out buf)
  let ?w = "unat (dib_x dib)"
  note depth = "1.prems"(2)
  show ?case
  proof (cases "x < ?w")
    case False
    then show ?thesis by (subst bmp_row.simps) simp
  next
    case True
    then have n: "0 < ?w - x" by simp
    let ?k = "step_pixels dib (?w - x)"
    note k = step_pixels_le [OF n, of dib]
    note bf = bytes_for_step [OF depth n]
    from bf "1.prems"(3) have c: "cur + step_bytes dib \<le> length bmp" by simp
    from k "1.prems"(4) have o: "out + ?k \<le> length buf" by simp
    from bmp_pixel_returns [OF True depth c o "1.prems"(5)] obtain x1 cur1 out1 buf1 where
      px: "bmp_pixel dib bmp mp x cur out buf = Inr (x1, cur1, out1, buf1)"
      by (metis prod_cases4)
    from bmp_pixel_spec [OF px True depth]
    have s: "x1 + 1 = x + ?k" "out1 + 1 = out + ?k" "cur1 + 1 = cur + step_bytes dib"
      "length buf1 = length buf"
      by simp_all
    have "\<exists>r. bmp_row dib bmp mp (x1 + 1) (cur1 + 1) (out1 + 1) buf1 = Inr r"
    proof (rule "1.IH" [OF True px refl refl refl _ depth _ _ "1.prems"(5)])
      from s k True show "x1 + 1 \<le> ?w" by linarith
      have "?w - (x1 + 1) = ?w - x - ?k" unfolding s by simp
      with s bf "1.prems"(3)
      show "cur1 + 1 + bytes_for dib (?w - (x1 + 1)) \<le> length bmp" by simp
      from s k True "1.prems"(4) show "out1 + 1 + (?w - (x1 + 1)) \<le> length buf1" by linarith
    qed
    with True px show ?thesis by (subst bmp_row.simps) simp
  qed
qed

lemma bmp_rows_returns:
  assumes "y \<le> unat (dib_y dib)"
    and "cur = pixmap + y * row_stride dib"
    and "dib_depth dib \<in> {1, 4, 8, 16, 24, 32}"
    and "pixmap + unat (dib_y dib) * row_stride dib \<le> length bmp"
    and "unat (dib_x dib) * unat (dib_y dib) \<le> length buf"
    and "palette_inside dib bmp mp"
  shows "\<exists>r. bmp_rows dib bmp mp pixmap y cur buf = Inr r"
  using assms
proof (induction dib bmp mp pixmap y cur buf rule: bmp_rows.induct)
  case (1 dib bmp mp pixmap y cur buf)
  let ?h = "unat (dib_y dib)"
  let ?w = "unat (dib_x dib)"
  let ?S = "row_stride dib"
  let ?B = "bytes_for dib ?w"
  note depth = "1.prems"(3)
  show ?case
  proof (cases "y < ?h")
    case False
    then show ?thesis by (subst bmp_rows.simps) simp
  next
    case True
    have "?B \<le> (?B + 3) div 4 * 4" by presburger
    then have BS: "?B \<le> ?S" unfolding row_stride_bytes .
    from True have "(y + 1) * ?S \<le> ?h * ?S" by (intro mult_le_mono1) simp
    with BS "1.prems"(2,4) have c: "cur + bytes_for dib (?w - 0) \<le> length bmp" by simp
    from True have "(?h - y - 1) * ?w + ?w = (?h - y) * ?w"
      using row_index [of y ?h ?w] by simp
    moreover have "(?h - y) * ?w \<le> ?h * ?w" by (intro mult_le_mono1) simp
    moreover have "?h * ?w = ?w * ?h" by (rule mult.commute)
    ultimately have "(?h - y - 1) * ?w + ?w \<le> length buf"
      using "1.prems"(5) by linarith
    then have o: "(?h - y - 1) * ?w + (?w - 0) \<le> length buf"
      unfolding diff_zero .
    from bmp_row_returns [OF le0 depth c o "1.prems"(6)] obtain cur1 buf1 where
      row: "bmp_row dib bmp mp 0 cur ((?h - y - 1) * ?w) buf = Inr (cur1, buf1)"
      by (metis surj_pair)
    from bmp_row_spec [OF row le0 depth, unfolded diff_zero]
    have s: "cur1 = cur + ?B" "length buf1 = length buf" by simp_all
    have pad: "row_padding pixmap cur1 = pixmap + (y + 1) * ?S"
      unfolding s by (rule row_padding_stride) (rule "1.prems"(2))
    have "\<exists>r. bmp_rows dib bmp mp pixmap (y + 1) (row_padding pixmap cur1) buf1 = Inr r"
    proof (rule "1.IH" [OF True row refl _ pad depth "1.prems"(4) _ "1.prems"(6)])
      from True show "y + 1 \<le> ?h" by simp
      from s "1.prems"(5) show "?w * ?h \<le> length buf1" by simp
    qed
    with True row show ?thesis by (subst bmp_rows.simps) simp
  qed
qed

text \<open>The validator's \<^verbatim>\<open>row_size\<close> is the stride; when \<open>height * stride\<close> does not
  wrap in 64 bits, its first row check puts all the rows inside the input.\<close>

lemma unat_header_row_size: "unat (header_row_size dib) = row_stride dib"
proof -
  let ?d = "unat (dib_depth dib)" and ?w = "unat (dib_x dib)"
  have d: "?d < 2 ^ 16" using unsigned_less [of "dib_depth dib", where ?'a = nat] by simp
  have w: "?w < 2 ^ 32" using unsigned_less [of "dib_x dib", where ?'a = nat] by simp
  have ud: "unat (ucast (dib_depth dib) :: UINTN) = ?d"
    using d by (simp add: unsigned_ucast_eq take_bit_nat_eq_self)
  from d w have "?d * ?w < 2 ^ 16 * 2 ^ 32" by (intro mult_strict_mono) simp_all
  then have p: "?d * ?w < 2 ^ 48" by simp
  then have 1: "unat (ucast (dib_depth dib) * ucast (dib_x dib) :: UINTN) = ?d * ?w"
    by (simp add: unat_word_ariths ud unat_ucast_u32)
  from p have 2: "unat (ucast (dib_depth dib) * ucast (dib_x dib) + 31 :: UINTN) = ?d * ?w + 31"
    by (simp add: unat_word_ariths(1) 1)
  have 3: "unat ((ucast (dib_depth dib) * ucast (dib_x dib) + 31) div 32 :: UINTN)
      = (?d * ?w + 31) div 32"
    by (simp add: unat_div 2)
  from p have "(?d * ?w + 31) div 32 < 2 ^ 48" by simp
  then have "(?d * ?w + 31) div 32 * 4 < 2 ^ 64" by simp
  then show ?thesis
    unfolding header_row_size_def row_stride_def
    by (simp add: unat_word_ariths(2) 3)
qed

lemma rows_inside:
  assumes header: "bmp_parse_header bmp = Inr (dib, mp, pixmap)"
    and nowrap: "unat (dib_y dib) * row_stride dib < 2 ^ 64"
  shows "pixmap + unat (dib_y dib) * row_stride dib \<le> length bmp"
proof -
  let ?file = "as_bmp_file bmp"
  from header have f: "check_file_header ?file (length bmp) = EFI_SUCCESS"
    and r: "check_rows ?file dib = EFI_SUCCESS"
    and p: "pixmap = unat (file_offset ?file)"
    by (auto simp: bmp_parse_header_def Let_def split: if_splits)
  from f have sz: "unat (file_size ?file) = length bmp"
    and le: "file_offset ?file \<le> file_size ?file"
    by (auto simp: check_file_header_def split: if_splits)
  from le have d: "unat (file_size ?file - file_offset ?file) = length bmp - pixmap"
    and pl: "pixmap \<le> length bmp"
    by (simp_all add: unat_sub word_le_nat_alt sz p)
  from nowrap have m: "unat (ucast (dib_y dib) * header_row_size dib :: UINTN)
      = unat (dib_y dib) * row_stride dib"
    by (simp add: unat_word_ariths(2) unat_ucast_u32 unat_header_row_size)
  from r have "\<not> (ucast (file_size ?file - file_offset ?file) :: UINTN)
      < ucast (dib_y dib) * header_row_size dib"
    by (auto simp: check_rows_def split: if_splits)
  then have "unat (dib_y dib) * row_stride dib \<le> length bmp - pixmap"
    by (simp add: word_less_nat_alt unat_ucast_u32 m d)
  with pl show ?thesis by simp
qed

lemma bmp_to_blt_returns:
  assumes header: "bmp_parse_header bmp = Inr (dib, mp, pixmap)"
    and nowrap: "unat (dib_y dib) * row_stride dib < 2 ^ 64"
    and pal: "palette_inside dib bmp mp"
    and buf: "unat (dib_x dib) * unat (dib_y dib) \<le> length buf"
  shows "\<exists>b. bmp_to_blt bmp buf dib mp pixmap = Inr (EFI_SUCCESS, b)"
proof -
  from header have "check_dib dib = EFI_SUCCESS"
    by (auto simp: bmp_parse_header_def Let_def split: if_splits)
  then have depth: "dib_depth dib \<in> {1, 4, 8, 16, 24, 32}" by (rule check_dib_depth)
  have p0: "pixmap = pixmap + 0 * row_stride dib" by simp
  from bmp_rows_returns [OF le0 p0 depth rows_inside [OF header nowrap] buf pal]
  obtain r where "bmp_rows dib bmp mp pixmap 0 pixmap buf = Inr r" ..
  then show ?thesis by (simp add: bmp_to_blt_def split: prod.splits)
qed

subsection \<open>Row order and stride\<close>

text \<open>
  For every image the validator accepts, of any of the six depths and any width:

  \<^item> the conversion returns, with \<^verbatim>\<open>EFI_SUCCESS\<close>, when \<open>height * stride\<close> does not
    wrap in 64 bits, the palette entries a pixel can select lie inside the input and the
    output buffer has \<open>width * height\<close> pixels;

  \<^item> a conversion that returns has filled output row \<open>y\<close> (0 the top one) with the
    decoded pixels of source row \<open>height - 1 - y\<close>, which starts at
    \<open>pixmap + (height - 1 - y) * stride\<close>. The run enters every source row \<open>y\<close> with its
    cursor at \<open>pixmap + y * stride\<close>; the row loop writes at output row
    \<open>height - y - 1\<close> and leaves the cursor \<open>ceil(depth * width / 8)\<close> bytes further, and
    the padding step puts it at the row's start plus the stride
    \<open>ceil(depth * width / 32) * 4\<close>. The run ends with the cursor at
    \<open>pixmap + height * stride\<close>.

  The validator gives neither of the first two conditions; the last section has the
  images on which they fail.
\<close>

lemma bmp_to_blt_rows:
  assumes "bmp_parse_header bmp = Inr (dib, mp, pixmap)"
  shows "(unat (dib_y dib) * row_stride dib < 2 ^ 64 \<and> palette_inside dib bmp mp \<and>
      unat (dib_x dib) * unat (dib_y dib) \<le> length buf \<longrightarrow>
      (\<exists>b. bmp_to_blt bmp buf dib mp pixmap = Inr (EFI_SUCCESS, b))) \<and>
   (\<forall>status buf'. bmp_to_blt bmp buf dib mp pixmap = Inr (status, buf') \<longrightarrow>
     status = EFI_SUCCESS \<and> length buf' = length buf \<and>
     (\<forall>y < unat (dib_y dib). \<forall>x < unat (dib_x dib).
        buf' ! (y * unat (dib_x dib) + x) =
          src_pixel dib bmp mp (pixmap + (unat (dib_y dib) - 1 - y) * row_stride dib) x
            (buf ! (y * unat (dib_x dib) + x))) \<and>
     (\<forall>y < unat (dib_y dib). \<exists>b b'.
        bmp_rows dib bmp mp pixmap 0 pixmap buf =
          bmp_rows dib bmp mp pixmap y (pixmap + y * row_stride dib) b \<and>
        bmp_row dib bmp mp 0 (pixmap + y * row_stride dib)
            ((unat (dib_y dib) - y - 1) * unat (dib_x dib)) b
          = Inr (pixmap + y * row_stride dib + row_bytes dib, b') \<and>
        row_padding pixmap (pixmap + y * row_stride dib + row_bytes dib)
          = pixmap + y * row_stride dib + row_stride dib) \<and>
     bmp_rows dib bmp mp pixmap 0 pixmap buf
       = Inr (pixmap + unat (dib_y dib) * row_stride dib, buf'))"
    (is "?returns \<and> (\<forall>status buf'. ?run status buf' \<longrightarrow> ?spec status buf')")
proof (rule conjI)
  show ?returns
    using bmp_to_blt_returns [OF assms] by blast
next
  show "\<forall>status buf'. ?run status buf' \<longrightarrow> ?spec status buf'"
  proof (intro allI impI)
    fix status buf'
    assume conv: "bmp_to_blt bmp buf dib mp pixmap = Inr (status, buf')"
    let ?h = "unat (dib_y dib)"
    let ?w = "unat (dib_x dib)"
    let ?S = "row_stride dib"
    from assms have "check_dib dib = EFI_SUCCESS"
      by (auto simp: bmp_parse_header_def Let_def split: if_splits)
    then have depth: "dib_depth dib \<in> {1, 4, 8, 16, 24, 32}" by (rule check_dib_depth)
    from conv obtain cur' where
      run: "bmp_rows dib bmp mp pixmap 0 pixmap buf = Inr (cur', buf')"
      and st: "status = EFI_SUCCESS"
      by (auto simp: bmp_to_blt_def split: sum.splits)
    have p0: "pixmap = pixmap + 0 * ?S" by simp
    note R = bmp_rows_spec [OF run le0 p0 depth, unfolded diff_zero]
    from R have c: "cur' = pixmap + ?h * ?S" and l: "length buf' = length buf" by simp_all
    from R have rp': "\<forall>r. 0 \<le> r \<and> r < ?h \<longrightarrow>
          (\<forall>n < ?w. buf' ! ((?h - 1 - r) * ?w + n) =
             src_pixel dib bmp mp (pixmap + r * ?S) n (buf ! ((?h - 1 - r) * ?w + n)))"
      by (elim conjE)
    have 2: "buf' ! (y * ?w + x) =
        src_pixel dib bmp mp (pixmap + (?h - 1 - y) * ?S) x (buf ! (y * ?w + x))"
      if y: "y < ?h" and x: "x < ?w" for y x
    proof -
      from y have r: "?h - 1 - y < ?h" "?h - 1 - (?h - 1 - y) = y" by simp_all
      from rp' [rule_format, of "?h - 1 - y" x] r x show ?thesis by simp
    qed
    have 3: "\<exists>b b'.
          bmp_rows dib bmp mp pixmap 0 pixmap buf =
            bmp_rows dib bmp mp pixmap y (pixmap + y * ?S) b \<and>
          bmp_row dib bmp mp 0 (pixmap + y * ?S) ((?h - y - 1) * ?w) b
            = Inr (pixmap + y * ?S + row_bytes dib, b') \<and>
          row_padding pixmap (pixmap + y * ?S + row_bytes dib) = pixmap + y * ?S + ?S"
      if y: "y < ?h" for y
    proof -
      from y have "y \<le> ?h" by simp
      from bmp_rows_reach [OF run depth this] obtain b where
        b: "bmp_rows dib bmp mp pixmap y (pixmap + y * ?S) b = Inr (cur', buf')" by auto
      from b y obtain cur1 buf1 where
        row: "bmp_row dib bmp mp 0 (pixmap + y * ?S) ((?h - y - 1) * ?w) b = Inr (cur1, buf1)"
        by (subst (asm) bmp_rows.simps) (auto split: sum.splits)
      from bmp_row_spec [OF row le0 depth, unfolded diff_zero]
      have c1: "cur1 = pixmap + y * ?S + row_bytes dib" by (simp add: row_bytes_for)
      have pad: "row_padding pixmap (pixmap + y * ?S + row_bytes dib) = pixmap + y * ?S + ?S"
        unfolding row_bytes_for by (simp only: row_padding_stride [OF refl]) simp
      from row c1 have row': "bmp_row dib bmp mp 0 (pixmap + y * ?S) ((?h - y - 1) * ?w) b
          = Inr (pixmap + y * ?S + row_bytes dib, buf1)" by simp
      have "bmp_rows dib bmp mp pixmap 0 pixmap buf =
          bmp_rows dib bmp mp pixmap y (pixmap + y * ?S) b"
        unfolding run b ..
      with row' pad show ?thesis by blast
    qed
    from st l 2 3 run c show "?spec status buf'" by (simp only:) blast
  qed
qed

text \<open>The two images of odd width. The one of depth 1 has its whole palette and so
  meets the three conditions; the one of depth 4 has two of the sixteen entries, and its
  conversion returns because no pixel selects another. In both the rows come out in
  reverse order, each row takes two bytes and four with its padding, and the run ends
  at offset 70.\<close>

lemma bmp_to_blt_rows_example:
  "bmp_parse_header bmp_9x2_1bit = Inr (as_bmp_dib bmp_9x2_1bit, 54, 62) \<and>
   unat (dib_y (as_bmp_dib bmp_9x2_1bit)) * row_stride (as_bmp_dib bmp_9x2_1bit)
     < (2 :: nat) ^ 64 \<and>
   palette_inside (as_bmp_dib bmp_9x2_1bit) bmp_9x2_1bit 54 \<and>
   unat (dib_x (as_bmp_dib bmp_9x2_1bit)) * unat (dib_y (as_bmp_dib bmp_9x2_1bit))
     \<le> length (replicate 18 \<lparr>Blue = 0, Green = 0, Red = 0, Reserved = 9\<rparr>) \<and>
   (\<exists>b. bmp_to_blt bmp_9x2_1bit (replicate 18 \<lparr>Blue = 0, Green = 0, Red = 0, Reserved = 9\<rparr>)
       (as_bmp_dib bmp_9x2_1bit) 54 62 = Inr (EFI_SUCCESS, b)) \<and>
   bmp_to_blt bmp_9x2_1bit (replicate 18 \<lparr>Blue = 0, Green = 0, Red = 0, Reserved = 9\<rparr>)
       (as_bmp_dib bmp_9x2_1bit) 54 62
     = Inr (EFI_SUCCESS,
         map (\<lambda>i :: nat. if i = 0 then \<lparr>Blue = 1, Green = 2, Red = 3, Reserved = 9\<rparr>
                          else \<lparr>Blue = 4, Green = 5, Red = 6, Reserved = 9\<rparr>)
           [0, 0, 0, 0, 0, 0, 0, 0, 1,
            1, 0, 1, 0, 1, 0, 1, 0, 1]) \<and>
   row_bytes (as_bmp_dib bmp_9x2_1bit) = 2 \<and> row_stride (as_bmp_dib bmp_9x2_1bit) = 4 \<and>
   bmp_rows (as_bmp_dib bmp_9x2_1bit) bmp_9x2_1bit 54 62 0 62
       (replicate 18 \<lparr>Blue = 0, Green = 0, Red = 0, Reserved = 9\<rparr>)
     = Inr (70,
         map (\<lambda>i :: nat. if i = 0 then \<lparr>Blue = 1, Green = 2, Red = 3, Reserved = 9\<rparr>
                          else \<lparr>Blue = 4, Green = 5, Red = 6, Reserved = 9\<rparr>)
           [0, 0, 0, 0, 0, 0, 0, 0, 1,
            1, 0, 1, 0, 1, 0, 1, 0, 1]) \<and>
   bmp_parse_header bmp_3x2_4bit = Inr (as_bmp_dib bmp_3x2_4bit, 54, 62) \<and>
   \<not> palette_inside (as_bmp_dib bmp_3x2_4bit) bmp_3x2_4bit 54 \<and>
   bmp_to_blt bmp_3x2_4bit (replicate 6 \<lparr>Blue = 0, Green = 0, Red = 0, Reserved = 9\<rparr>)
       (as_bmp_dib bmp_3x2_4bit) 54 62
     = Inr (EFI_SUCCESS,
         map (\<lambda>i :: nat. if i = 0 then \<lparr>Blue = 1, Green = 2, Red = 3, Reserved = 9\<rparr>
                          else \<lparr>Blue = 4, Green = 5, Red = 6, Reserved = 9\<rparr>)
           [0, 1, 0,
            1, 0, 1]) \<and>
   row_bytes (as_bmp_dib bmp_3x2_4bit) = 2 \<and> row_stride (as_bmp_dib bmp_3x2_4bit) = 4 \<and>
   bmp_rows (as_bmp_dib bmp_3x2_4bit) bmp_3x2_4bit 54 62 0 62
       (replicate 6 \<lparr>Blue = 0, Green = 0, Red = 0, Reserved = 9\<rparr>)
     = Inr (70,
         map (\<lambda>i :: nat. if i = 0 then \<lparr>Blue = 1, Green = 2, Red = 3, Reserved = 9\<rparr>
                          else \<lparr>Blue = 4, Green = 5, Red = 6, Reserved = 9\<rparr>)
           [0, 1, 0,
            1, 0, 1])"
proof -
  let ?buf1 = "replicate 18 \<lparr>Blue = 0, Green = 0, Red = 0, Reserved = 9\<rparr>"
  let ?buf2 = "replicate 6 \<lparr>Blue = 0, Green = 0, Red = 0, Reserved = 9\<rparr>"
  have h1: "bmp_parse_header bmp_9x2_1bit = Inr (as_bmp_dib bmp_9x2_1bit, 54, 62)"
    by (simp add: header_defs bmp_9x2_1bit_def)
  have d1: "as_bmp_dib bmp_9x2_1bit =
      \<lparr>dib_size = 40, dib_x = 9, dib_y = 2, dib_planes = 1, dib_depth = 1,
        dib_compression = 0, dib_image_size = 0, dib_x_pixel_meter = 0,
        dib_y_pixel_meter = 0, dib_colors_used = 0, dib_colors_important = 0\<rparr>"
    by (simp add: bmp_9x2_1bit_def as_bmp_dib_def le16_def le32_def)
  have c1: "bmp_to_blt bmp_9x2_1bit ?buf1 (as_bmp_dib bmp_9x2_1bit) 54 62
     = Inr (EFI_SUCCESS,
         map (\<lambda>i :: nat. if i = 0 then \<lparr>Blue = 1, Green = 2, Red = 3, Reserved = 9\<rparr>
                          else \<lparr>Blue = 4, Green = 5, Red = 6, Reserved = 9\<rparr>)
           [0, 0, 0, 0, 0, 0, 0, 0, 1,
            1, 0, 1, 0, 1, 0, 1, 0, 1])"
    by code_simp
  have s1: "row_bytes (as_bmp_dib bmp_9x2_1bit) = 2" "row_stride (as_bmp_dib bmp_9x2_1bit) = 4"
    unfolding d1 by (simp_all add: row_bytes_def row_stride_def)
  have y1: "unat (dib_y (as_bmp_dib bmp_9x2_1bit)) = 2"
    "unat (dib_x (as_bmp_dib bmp_9x2_1bit)) = 9" unfolding d1 by simp_all
  have n1: "unat (dib_y (as_bmp_dib bmp_9x2_1bit)) * row_stride (as_bmp_dib bmp_9x2_1bit)
      < (2 :: nat) ^ 64"
    unfolding y1 s1 by simp
  have l1: "unat (dib_x (as_bmp_dib bmp_9x2_1bit)) * unat (dib_y (as_bmp_dib bmp_9x2_1bit))
      \<le> length ?buf1"
    unfolding y1 by simp
  have p1: "palette_inside (as_bmp_dib bmp_9x2_1bit) bmp_9x2_1bit 54"
    unfolding d1 by (simp add: palette_inside_def bmp_9x2_1bit_def)
  have h2: "bmp_parse_header bmp_3x2_4bit = Inr (as_bmp_dib bmp_3x2_4bit, 54, 62)"
    by (simp add: header_defs bmp_3x2_4bit_def)
  have d2: "as_bmp_dib bmp_3x2_4bit =
      \<lparr>dib_size = 40, dib_x = 3, dib_y = 2, dib_planes = 1, dib_depth = 4,
        dib_compression = 0, dib_image_size = 0, dib_x_pixel_meter = 0,
        dib_y_pixel_meter = 0, dib_colors_used = 2, dib_colors_important = 0\<rparr>"
    by (simp add: bmp_3x2_4bit_def as_bmp_dib_def le16_def le32_def)
  have c2: "bmp_to_blt bmp_3x2_4bit ?buf2 (as_bmp_dib bmp_3x2_4bit) 54 62
     = Inr (EFI_SUCCESS,
         map (\<lambda>i :: nat. if i = 0 then \<lparr>Blue = 1, Green = 2, Red = 3, Reserved = 9\<rparr>
                          else \<lparr>Blue = 4, Green = 5, Red = 6, Reserved = 9\<rparr>)
           [0, 1, 0,
            1, 0, 1])"
    by code_simp
  have s2: "row_bytes (as_bmp_dib bmp_3x2_4bit) = 2" "row_stride (as_bmp_dib bmp_3x2_4bit) = 4"
    unfolding d2 by (simp_all add: row_bytes_def row_stride_def)
  have y2: "unat (dib_y (as_bmp_dib bmp_3x2_4bit)) = 2" unfolding d2 by simp
  have p2: "\<not> palette_inside (as_bmp_dib bmp_3x2_4bit) bmp_3x2_4bit 54"
    unfolding d2 by (simp add: palette_inside_def bmp_3x2_4bit_def)
  note A = bmp_to_blt_rows [OF h1, of ?buf1]
  note B = bmp_to_blt_rows [OF h2, of ?buf2]
  from A n1 p1 l1
  have e1: "\<exists>b. bmp_to_blt bmp_9x2_1bit ?buf1 (as_bmp_dib bmp_9x2_1bit) 54 62
      = Inr (EFI_SUCCESS, b)"
    by blast
  from A [THEN conjunct2, rule_format, OF c1]
  have r1: "bmp_rows (as_bmp_dib bmp_9x2_1bit) bmp_9x2_1bit 54 62 0 62 ?buf1
     = Inr (70,
         map (\<lambda>i :: nat. if i = 0 then \<lparr>Blue = 1, Green = 2, Red = 3, Reserved = 9\<rparr>
                          else \<lparr>Blue = 4, Green = 5, Red = 6, Reserved = 9\<rparr>)
           [0, 0, 0, 0, 0, 0, 0, 0, 1,
            1, 0, 1, 0, 1, 0, 1, 0, 1])"
    unfolding y1 s1 by (elim conjE, simp)
  from B [THEN conjunct2, rule_format, OF c2]
  have r2: "bmp_rows (as_bmp_dib bmp_3x2_4bit) bmp_3x2_4bit 54 62 0 62 ?buf2
     = Inr (70,
         map (\<lambda>i :: nat. if i = 0 then \<lparr>Blue = 1, Green = 2, Red = 3, Reserved = 9\<rparr>
                          else \<lparr>Blue = 4, Green = 5, Red = 6, Reserved = 9\<rparr>)
           [0, 1, 0,
            1, 0, 1])"
    unfolding y2 s2 by (elim conjE, simp)
  from h1 n1 p1 l1 e1 c1 s1 r1 h2 p2 c2 s2 r2 show ?thesis by (simp only: simp_thms)
qed

text \<open>The image of depth 32 over a blue buffer: the bottom row, red with alpha 128,
  comes out in output row 1 as the blend (128, 0, 128); the top row, with alpha 0, leaves
  the colour of output row 0 and clears its fourth byte.\<close>

lemma bmp_to_blt_rows_depth32:
  "bmp_parse_header bmp_1x2_32 = Inr (as_bmp_dib bmp_1x2_32, 54, 54) \<and>
   bmp_to_blt bmp_1x2_32 (replicate 2 \<lparr>Blue = 255, Green = 0, Red = 0, Reserved = 9\<rparr>)
       (as_bmp_dib bmp_1x2_32) 54 54
     = Inr (EFI_SUCCESS,
         [\<lparr>Blue = 255, Green = 0, Red = 0, Reserved = 0\<rparr>,
          \<lparr>Blue = 128, Green = 0, Red = 128, Reserved = 0\<rparr>]) \<and>
   src_pixel (as_bmp_dib bmp_1x2_32) bmp_1x2_32 54 (54 + 1 * 4) 0
       \<lparr>Blue = 255, Green = 0, Red = 0, Reserved = 9\<rparr>
     = \<lparr>Blue = 255, Green = 0, Red = 0, Reserved = 0\<rparr> \<and>
   src_pixel (as_bmp_dib bmp_1x2_32) bmp_1x2_32 54 (54 + 0 * 4) 0
       \<lparr>Blue = 255, Green = 0, Red = 0, Reserved = 9\<rparr>
     = \<lparr>Blue = 128, Green = 0, Red = 128, Reserved = 0\<rparr>"
proof -
  let ?buf = "replicate 2 \<lparr>Blue = 255, Green = 0, Red = 0, Reserved = 9\<rparr>"
  have h: "bmp_parse_header bmp_1x2_32 = Inr (as_bmp_dib bmp_1x2_32, 54, 54)"
    by (simp add: header_defs bmp_1x2_32_def)
  have d: "as_bmp_dib bmp_1x2_32 =
      \<lparr>dib_size = 40, dib_x = 1, dib_y = 2, dib_planes = 1, dib_depth = 32,
        dib_compression = 0, dib_image_size = 0, dib_x_pixel_meter = 0,
        dib_y_pixel_meter = 0, dib_colors_used = 0, dib_colors_important = 0\<rparr>"
    by (simp add: bmp_1x2_32_def as_bmp_dib_def le16_def le32_def)
  have c: "bmp_to_blt bmp_1x2_32 ?buf (as_bmp_dib bmp_1x2_32) 54 54
     = Inr (EFI_SUCCESS,
         [\<lparr>Blue = 255, Green = 0, Red = 0, Reserved = 0\<rparr>,
          \<lparr>Blue = 128, Green = 0, Red = 128, Reserved = 0\<rparr>])"
    by code_simp
  have s: "src_pixel (as_bmp_dib bmp_1x2_32) bmp_1x2_32 54 (54 + 1 * 4) 0
       \<lparr>Blue = 255, Green = 0, Red = 0, Reserved = 9\<rparr>
     = \<lparr>Blue = 255, Green = 0, Red = 0, Reserved = 0\<rparr>"
    "src_pixel (as_bmp_dib bmp_1x2_32) bmp_1x2_32 54 (54 + 0 * 4) 0
       \<lparr>Blue = 255, Green = 0, Red = 0, Reserved = 9\<rparr>
     = \<lparr>Blue = 128, Green = 0, Red = 128, Reserved = 0\<rparr>"
    unfolding d
    by (simp_all add: src_pixel_def blended_pixel_def blend_channel_def bmp_1x2_32_def)
  from h c s show ?thesis by (simp only: simp_thms)
qed

section \<open>Where a conversion can fault\<close>

text \<open>
  The buffer \<^verbatim>\<open>graphics_splash\<close> allocates has \<open>width * height\<close> pixels: after the
  validator's limit of 64 MiB on \<open>stride * height\<close>, the 32-bit product
  \<^verbatim>\<open>dib->x * dib->y\<close> does not wrap.
\<close>

lemma width_le_stride:
  assumes "dib_depth dib \<in> {1, 4, 8, 16, 24, 32}"
  shows "unat (dib_x dib) \<le> 8 * row_stride dib"
proof -
  let ?d = "unat (dib_depth dib)" and ?w = "unat (dib_x dib)"
  from assms have "1 \<le> ?d" by auto
  then have "1 * ?w \<le> ?d * ?w" by (intro mult_le_mono1)
  then have "?w \<le> ?d * ?w" by (simp only: mult_1)
  also have "\<dots> \<le> 32 * ((?d * ?w + 31) div 32)" by presburger
  finally show ?thesis by (simp add: row_stride_def)
qed

lemma buffer_pixels:
  assumes header: "bmp_parse_header bmp = Inr (dib, mp, pixmap)"
    and nowrap: "unat (dib_y dib) * row_stride dib < 2 ^ 64"
  shows "unat (dib_x dib * dib_y dib) = unat (dib_x dib) * unat (dib_y dib)"
proof -
  let ?h = "unat (dib_y dib)" and ?w = "unat (dib_x dib)" and ?S = "row_stride dib"
  from header have "check_dib dib = EFI_SUCCESS"
    and r: "check_rows (as_bmp_file bmp) dib = EFI_SUCCESS"
    by (auto simp: bmp_parse_header_def Let_def split: if_splits)
  then have depth: "dib_depth dib \<in> {1, 4, 8, 16, 24, 32}" by (intro check_dib_depth)
  from nowrap have m: "unat (header_row_size dib * ucast (dib_y dib) :: UINTN) = ?S * ?h"
    by (simp add: unat_word_ariths(2) unat_ucast_u32 unat_header_row_size mult.commute)
  from r have "\<not> header_row_size dib * ucast (dib_y dib) > (64 * 1024 * 1024 :: UINTN)"
    by (auto simp: check_rows_def split: if_splits)
  then have "?S * ?h \<le> 67108864"
    by (simp add: word_less_nat_alt m)
  then have "8 * (?S * ?h) \<le> 536870912" by simp
  moreover from width_le_stride [OF depth] have "?w * ?h \<le> 8 * ?S * ?h"
    by (intro mult_le_mono1)
  then have "?w * ?h \<le> 8 * (?S * ?h)" by (simp only: mult.assoc)
  ultimately have "?w * ?h \<le> 536870912" by (rule order_trans [rotated])
  then have "?w * ?h < 2 ^ 32" by simp
  then show ?thesis by (simp add: unat_word_ariths(2))
qed

text \<open>
  \<^verbatim>\<open>graphics_splash\<close> returns a status, whatever the firmware does, on every input
  that the validator rejects, and on every input it accepts whose \<open>height * stride\<close>
  does not wrap and whose palette entries lie inside the input. A conversion can
  therefore leave the input in two ways only: through a palette index, as in
  \<open>bmp_index_255\<close>, and through the wrapped product of the row check, as in
  \<open>bmp_wrap\<close> below.
\<close>

lemma graphics_splash_returns:
  assumes "\<And>dib mp pixmap. bmp_parse_header content = Inr (dib, mp, pixmap) \<Longrightarrow>
      unat (dib_y dib) * row_stride dib < 2 ^ 64 \<and> palette_inside dib content mp"
  shows "\<exists>status. fst (graphics_splash fw content background) = Inr status"
proof (cases "bmp_parse_header content")
  case (Inl err)
  then show ?thesis by (simp add: graphics_splash_def Let_def)
next
  case (Inr r)
  then obtain dib mp pixmap where header: "bmp_parse_header content = Inr (dib, mp, pixmap)"
    by (metis prod_cases3)
  from assms [OF header] have nowrap: "unat (dib_y dib) * row_stride dib < 2 ^ 64"
    and pal: "palette_inside dib content mp" by simp_all
  let ?blt = "map (video_pixel fw (splash_pos (HorizontalResolution fw) (dib_x dib))
        (splash_pos (VerticalResolution fw) (dib_y dib)) (unat (dib_x dib)) (unat (dib_y dib)))
      [0 ..< unat (dib_x dib * dib_y dib)]"
  have "unat (dib_x dib) * unat (dib_y dib) \<le> length ?blt"
    by (simp add: buffer_pixels [OF header nowrap])
  from bmp_to_blt_returns [OF header nowrap pal this] obtain b where
    "bmp_to_blt content ?blt dib mp pixmap = Inr (EFI_SUCCESS, b)" ..
  with header show ?thesis by (simp add: graphics_splash_def Let_def)
qed

text \<open>The image \<open>bmp_wrap\<close>: the product \<^verbatim>\<open>dib->y * row_size\<close> of line 96 is 0 in
  64 bits, both row checks pass, and the conversion reads the first pixel at the
  offsets 54 to 57 of an input of 54 bytes.\<close>

lemma row_check_wraps:
  "length bmp_wrap = 54 \<and>
   bmp_parse_header bmp_wrap = Inr (as_bmp_dib bmp_wrap, 54, 54) \<and>
   dib_depth (as_bmp_dib bmp_wrap) = 32 \<and>
   unat (dib_x (as_bmp_dib bmp_wrap)) = 2 ^ 31 \<and>
   unat (dib_y (as_bmp_dib bmp_wrap)) = 2 ^ 31 \<and>
   row_stride (as_bmp_dib bmp_wrap) = 2 ^ 33 \<and>
   ucast (dib_y (as_bmp_dib bmp_wrap)) * header_row_size (as_bmp_dib bmp_wrap) = 0 \<and>
   bmp_to_blt bmp_wrap [] (as_bmp_dib bmp_wrap) 54 54 = Inl (ReadOutside 57)"
proof -
  have d: "as_bmp_dib bmp_wrap =
      \<lparr>dib_size = 40, dib_x = 0x80000000, dib_y = 0x80000000, dib_planes = 1, dib_depth = 32,
        dib_compression = 0, dib_image_size = 0, dib_x_pixel_meter = 0,
        dib_y_pixel_meter = 0, dib_colors_used = 0, dib_colors_important = 0\<rparr>"
    by (simp add: bmp_wrap_def as_bmp_dib_def le16_def le32_def)
  have l: "length bmp_wrap = 54" by (simp add: bmp_wrap_def)
  have h: "bmp_parse_header bmp_wrap = Inr (as_bmp_dib bmp_wrap, 54, 54)"
    by (simp add: header_defs bmp_wrap_def)
  have s: "row_stride (as_bmp_dib bmp_wrap) = 2 ^ 33"
    unfolding d by (simp add: row_stride_def)
  have m: "ucast (dib_y (as_bmp_dib bmp_wrap)) * header_row_size (as_bmp_dib bmp_wrap) = 0"
    unfolding d by (simp add: header_row_size_def)
  have c: "bmp_to_blt bmp_wrap [] (as_bmp_dib bmp_wrap) 54 54 = Inl (ReadOutside 57)"
    unfolding d
    by (simp add: bmp_to_blt_def bmp_rows.simps [of _ _ _ _ 0] bmp_row.simps [of _ _ _ 0]
        bmp_pixel_def l)
  from l h s m c show ?thesis unfolding d by simp
qed


end
